theory Spec2Isabelle
  imports Main "HOL-Library.Multiset"
begin

text \<open>
  The game-state engine of the Tetris game: the piece catalogue and factory
  (utils/tetrominoes.js), the board functions (utils/gameLogic.js), the scoring functions
  (utils/scoring.js) and the reducer (hooks/useGameState.js), as functions of HOL; then
  the properties of the engine.
\<close>

section \<open>Constants (utils/constants.js)\<close>

definition BOARD_WIDTH :: nat where
  "BOARD_WIDTH = 10"

definition BOARD_HEIGHT :: nat where
  "BOARD_HEIGHT = 20"

text \<open>
  The seven strings of \<^verbatim>\<open>TETROMINO_TYPES\<close> \<^verbatim>\<open>['I', 'O', 'T', 'S', 'Z', 'J', 'L']\<close>
  are a closed enumeration.
\<close>

datatype tetromino_type = Type_I | Type_O | Type_T | Type_S | Type_Z | Type_J | Type_L

definition TETROMINO_TYPES :: "tetromino_type list" where
  "TETROMINO_TYPES = [Type_I, Type_O, Type_T, Type_S, Type_Z, Type_J, Type_L]"

definition INITIAL_DROP_SPEED :: int where
  "INITIAL_DROP_SPEED = 1000"

definition SPEED_INCREASE_PER_LEVEL :: int where
  "SPEED_INCREASE_PER_LEVEL = 100"

definition MIN_DROP_SPEED :: int where
  "MIN_DROP_SPEED = 50"

definition POINTS_SOFT_DROP :: int where
  "POINTS_SOFT_DROP = 1"

definition POINTS_HARD_DROP :: int where
  "POINTS_HARD_DROP = 2"

definition POINTS_SINGLE_LINE :: int where
  "POINTS_SINGLE_LINE = 40"

definition POINTS_DOUBLE_LINE :: int where
  "POINTS_DOUBLE_LINE = 100"

definition POINTS_TRIPLE_LINE :: int where
  "POINTS_TRIPLE_LINE = 300"

definition POINTS_TETRIS :: int where
  "POINTS_TETRIS = 1200"

definition LINES_PER_LEVEL :: int where
  "LINES_PER_LEVEL = 10"

datatype game_states = GS_MENU | GS_PLAYING | GS_PAUSED | GS_GAME_OVER

fun TETROMINO_COLORS :: "tetromino_type \<Rightarrow> string" where
  "TETROMINO_COLORS Type_I = ''tetromino-i''"
| "TETROMINO_COLORS Type_O = ''tetromino-o''"
| "TETROMINO_COLORS Type_T = ''tetromino-t''"
| "TETROMINO_COLORS Type_S = ''tetromino-s''"
| "TETROMINO_COLORS Type_Z = ''tetromino-z''"
| "TETROMINO_COLORS Type_J = ''tetromino-j''"
| "TETROMINO_COLORS Type_L = ''tetromino-l''"


section \<open>JavaScript values and operators the code relies on\<close>

text \<open>
  What the reducer can throw: a \<^verbatim>\<open>TypeError\<close> when a property of \<^verbatim>\<open>undefined\<close> is
  read (a missing board row, a missing shape), and the \<^verbatim>\<open>Error\<close> that
  \<^verbatim>\<open>createTetromino\<close> raises for a value outside \<^verbatim>\<open>TETROMINO_TYPES\<close>.
\<close>

datatype error = TypeError | InvalidTetrominoType

text \<open>
  The remainder operator \<^verbatim>\<open>%\<close> truncates towards zero: the result has the sign of the
  dividend, so \<^verbatim>\<open>-1 % 4\<close> is \<^verbatim>\<open>-1\<close>.
\<close>

definition js_rem :: "int \<Rightarrow> int \<Rightarrow> int" where
  "js_rem a b = sgn a * (\<bar>a\<bar> mod \<bar>b\<bar>)"

text \<open>Reading \<^verbatim>\<open>xs[i]\<close>: \<^verbatim>\<open>undefined\<close> (here \<open>None\<close>) outside \<open>0 .. length - 1\<close>.\<close>

definition js_index :: "'a list \<Rightarrow> int \<Rightarrow> 'a option" where
  "js_index xs i = (if 0 \<le> i \<and> i < int (length xs) then Some (xs ! nat i) else None)"


section \<open>Piece catalogue and factory (utils/tetrominoes.js)\<close>

type_synonym mask = "nat list list"

fun TETROMINO_SHAPES :: "tetromino_type \<Rightarrow> mask list" where
  "TETROMINO_SHAPES Type_I =
    [[[0, 0, 0, 0],
      [1, 1, 1, 1],
      [0, 0, 0, 0],
      [0, 0, 0, 0]],
     [[0, 0, 1, 0],
      [0, 0, 1, 0],
      [0, 0, 1, 0],
      [0, 0, 1, 0]],
     [[0, 0, 0, 0],
      [1, 1, 1, 1],
      [0, 0, 0, 0],
      [0, 0, 0, 0]],
     [[0, 0, 1, 0],
      [0, 0, 1, 0],
      [0, 0, 1, 0],
      [0, 0, 1, 0]]]"
| "TETROMINO_SHAPES Type_O =
    [[[0, 0, 0, 0],
      [0, 1, 1, 0],
      [0, 1, 1, 0],
      [0, 0, 0, 0]],
     [[0, 0, 0, 0],
      [0, 1, 1, 0],
      [0, 1, 1, 0],
      [0, 0, 0, 0]],
     [[0, 0, 0, 0],
      [0, 1, 1, 0],
      [0, 1, 1, 0],
      [0, 0, 0, 0]],
     [[0, 0, 0, 0],
      [0, 1, 1, 0],
      [0, 1, 1, 0],
      [0, 0, 0, 0]]]"
| "TETROMINO_SHAPES Type_T =
    [[[0, 0, 0, 0],
      [0, 1, 0, 0],
      [1, 1, 1, 0],
      [0, 0, 0, 0]],
     [[0, 0, 0, 0],
      [0, 1, 0, 0],
      [0, 1, 1, 0],
      [0, 1, 0, 0]],
     [[0, 0, 0, 0],
      [0, 0, 0, 0],
      [1, 1, 1, 0],
      [0, 1, 0, 0]],
     [[0, 0, 0, 0],
      [0, 1, 0, 0],
      [1, 1, 0, 0],
      [0, 1, 0, 0]]]"
| "TETROMINO_SHAPES Type_S =
    [[[0, 0, 0, 0],
      [0, 1, 1, 0],
      [1, 1, 0, 0],
      [0, 0, 0, 0]],
     [[0, 0, 0, 0],
      [0, 1, 0, 0],
      [0, 1, 1, 0],
      [0, 0, 1, 0]],
     [[0, 0, 0, 0],
      [0, 1, 1, 0],
      [1, 1, 0, 0],
      [0, 0, 0, 0]],
     [[0, 0, 0, 0],
      [0, 1, 0, 0],
      [0, 1, 1, 0],
      [0, 0, 1, 0]]]"
| "TETROMINO_SHAPES Type_Z =
    [[[0, 0, 0, 0],
      [1, 1, 0, 0],
      [0, 1, 1, 0],
      [0, 0, 0, 0]],
     [[0, 0, 0, 0],
      [0, 0, 1, 0],
      [0, 1, 1, 0],
      [0, 1, 0, 0]],
     [[0, 0, 0, 0],
      [1, 1, 0, 0],
      [0, 1, 1, 0],
      [0, 0, 0, 0]],
     [[0, 0, 0, 0],
      [0, 0, 1, 0],
      [0, 1, 1, 0],
      [0, 1, 0, 0]]]"
| "TETROMINO_SHAPES Type_J =
    [[[0, 0, 0, 0],
      [1, 0, 0, 0],
      [1, 1, 1, 0],
      [0, 0, 0, 0]],
     [[0, 0, 0, 0],
      [0, 1, 1, 0],
      [0, 1, 0, 0],
      [0, 1, 0, 0]],
     [[0, 0, 0, 0],
      [0, 0, 0, 0],
      [1, 1, 1, 0],
      [0, 0, 1, 0]],
     [[0, 0, 0, 0],
      [0, 1, 0, 0],
      [0, 1, 0, 0],
      [1, 1, 0, 0]]]"
| "TETROMINO_SHAPES Type_L =
    [[[0, 0, 0, 0],
      [0, 0, 1, 0],
      [1, 1, 1, 0],
      [0, 0, 0, 0]],
     [[0, 0, 0, 0],
      [0, 1, 0, 0],
      [0, 1, 0, 0],
      [0, 1, 1, 0]],
     [[0, 0, 0, 0],
      [0, 0, 0, 0],
      [1, 1, 1, 0],
      [1, 0, 0, 0]],
     [[0, 0, 0, 0],
      [1, 1, 0, 0],
      [0, 1, 0, 0],
      [0, 1, 0, 0]]]"

text \<open>
  The tetromino object \<^verbatim>\<open>{ type, x, y, rotation, shape, color }\<close>. The shape is whatever
  \<^verbatim>\<open>TETROMINO_SHAPES[type][k]\<close> yielded, so it is \<^verbatim>\<open>undefined\<close> (\<open>None\<close>) when \<open>k\<close>
  was not one of the four indices.
\<close>

record tetromino =
  piece_type :: tetromino_type
  piece_x :: int
  piece_y :: int
  rotation :: int
  shape :: "mask option"
  color :: string

text \<open>
  \<^verbatim>\<open>createTetromino(type, x = 3, y = -1, rotation = 0)\<close>. The type argument is a bag
  entry; \<open>None\<close> stands for the \<^verbatim>\<open>undefined\<close> of a read past the end of the bag, which
  \<^verbatim>\<open>TETROMINO_TYPES.includes\<close> rejects.
\<close>

definition createTetromino ::
  "tetromino_type option \<Rightarrow> int \<Rightarrow> int \<Rightarrow> int \<Rightarrow> error + tetromino" where
  "createTetromino ty x y rot =
     (case ty of
        None \<Rightarrow> Inl InvalidTetrominoType
      | Some t \<Rightarrow>
          if t \<notin> set TETROMINO_TYPES then Inl InvalidTetrominoType
          else Inr \<lparr> piece_type = t, piece_x = x, piece_y = y,
                     rotation = js_rem rot 4,
                     shape = js_index (TETROMINO_SHAPES t) (js_rem rot 4),
                     color = TETROMINO_COLORS t \<rparr>)"

text \<open>The call with the default arguments, as the reducer makes it.\<close>

definition createTetromino_default :: "tetromino_type option \<Rightarrow> error + tetromino" where
  "createTetromino_default ty = createTetromino ty 3 (- 1) 0"

definition rotateTetromino :: "tetromino \<Rightarrow> tetromino" where
  "rotateTetromino t =
     (let newRotation = js_rem (rotation t + 1) 4
      in t\<lparr> rotation := newRotation,
             shape := js_index (TETROMINO_SHAPES (piece_type t)) newRotation \<rparr>)"

definition rotateTetrominoCounterClockwise :: "tetromino \<Rightarrow> tetromino" where
  "rotateTetrominoCounterClockwise t =
     (let newRotation = js_rem (rotation t + 3) 4
      in t\<lparr> rotation := newRotation,
             shape := js_index (TETROMINO_SHAPES (piece_type t)) newRotation \<rparr>)"

text \<open>
  \<^verbatim>\<open>createTetrominoBag\<close>: a Fisher-Yates shuffle of \<^verbatim>\<open>[...TETROMINO_TYPES]\<close>. The
  source of randomness is a parameter: \<open>rand k\<close> is the entropy behind the \<open>k\<close>-th call of
  \<^verbatim>\<open>Math.random()\<close>, and \<^verbatim>\<open>Math.floor(Math.random() * (i + 1))\<close>, an integer of
  \<open>0 .. i\<close>, is \<open>rand k mod (i + 1)\<close>. The loop runs \<open>i\<close> from \<open>length - 1\<close> down to 1.
\<close>

fun shuffleLoop :: "(nat \<Rightarrow> nat) \<Rightarrow> nat \<Rightarrow> nat \<Rightarrow> 'a list \<Rightarrow> 'a list" where
  "shuffleLoop rand k 0 bag = bag"
| "shuffleLoop rand k (Suc n) bag =
     (let i = Suc n;
          j = rand k mod (i + 1)
      in shuffleLoop rand (Suc k) n (bag[i := bag ! j, j := bag ! i]))"

definition createTetrominoBag :: "(nat \<Rightarrow> nat) \<Rightarrow> tetromino_type list" where
  "createTetrominoBag rand = shuffleLoop rand 0 (length TETROMINO_TYPES - 1) TETROMINO_TYPES"


section \<open>Scoring (utils/scoring.js) and the drop cadence\<close>

definition calculateLineScore :: "int \<Rightarrow> int \<Rightarrow> int" where
  "calculateLineScore linesCleared lvl =
     (if linesCleared = 0 then 0
      else (if linesCleared = 1 then POINTS_SINGLE_LINE
            else if linesCleared = 2 then POINTS_DOUBLE_LINE
            else if linesCleared = 3 then POINTS_TRIPLE_LINE
            else if linesCleared = 4 then POINTS_TETRIS
            else POINTS_SINGLE_LINE * linesCleared) * lvl)"

definition calculateSoftDropScore :: "int \<Rightarrow> int" where
  "calculateSoftDropScore cells = cells * POINTS_SOFT_DROP"

definition calculateHardDropScore :: "int \<Rightarrow> int" where
  "calculateHardDropScore cells = cells * POINTS_HARD_DROP"

definition calculateLevel :: "int \<Rightarrow> int" where
  "calculateLevel totalLines = totalLines div LINES_PER_LEVEL + 1"

text \<open>
  Three functions of the repository are called \<^verbatim>\<open>calculateDropSpeed\<close>. The game loop
  (hooks/useGame.js) times the automatic fall with its own private one; the statistics
  panel shows the one of utils/gameLogic.js; the one of utils/scoring.js has no caller.
\<close>

definition useGame_calculateDropSpeed :: "int \<Rightarrow> int" where
  "useGame_calculateDropSpeed lvl =
     (let speed = INITIAL_DROP_SPEED - (lvl * SPEED_INCREASE_PER_LEVEL)
      in max speed MIN_DROP_SPEED)"

definition gameLogic_calculateDropSpeed :: "int \<Rightarrow> int" where
  "gameLogic_calculateDropSpeed lvl =
     (let baseSpeed = 1000; speedIncrease = 100; minSpeed = 50
      in max minSpeed (baseSpeed - (lvl - 1) * speedIncrease))"

definition scoring_calculateDropSpeed :: "int \<Rightarrow> int" where
  "scoring_calculateDropSpeed lvl =
     (let baseSpeed = 1000; speedDecrease = 50; minSpeed = 50
      in max minSpeed (baseSpeed - (lvl - 1) * speedDecrease))"


section \<open>Board (utils/gameLogic.js)\<close>

text \<open>
  A board cell holds the number 0 or the CSS class string of the piece stamped there.
  \<open>Undefined\<close> is what a read past the end of a row yields, and what an assignment
  past the end of a row leaves in the gap.
\<close>

datatype cell = Zero | Css string | Undefined

type_synonym board = "cell list list"

text \<open>Truthiness, as \<^verbatim>\<open>if (board[newY][newX])\<close> tests it.\<close>

fun cell_truthy :: "cell \<Rightarrow> bool" where
  "cell_truthy Zero = False"
| "cell_truthy (Css s) = (s \<noteq> [])"
| "cell_truthy Undefined = False"

definition cell_at :: "cell list \<Rightarrow> int \<Rightarrow> cell" where
  "cell_at row i = (case js_index row i of None \<Rightarrow> Undefined | Some c \<Rightarrow> c)"

text \<open>The assignment \<^verbatim>\<open>row[i] = v\<close>: past the end, the array grows.\<close>

definition js_set :: "cell list \<Rightarrow> nat \<Rightarrow> cell \<Rightarrow> cell list" where
  "js_set row i v =
     (if i < length row then row[i := v]
      else row @ replicate (i - length row) Undefined @ [v])"

definition createEmptyBoard :: board where
  "createEmptyBoard = replicate BOARD_HEIGHT (replicate BOARD_WIDTH Zero)"

text \<open>
  The pairs \<open>(row, col)\<close> at which the two nested \<^verbatim>\<open>for\<close> loops over a shape find a
  truthy entry, in the order the loops visit them. \<^verbatim>\<open>canPlacePiece\<close> and
  \<^verbatim>\<open>getTetrominoPositions\<close> both run these loops.
\<close>

definition setCells :: "mask \<Rightarrow> (nat \<times> nat) list" where
  "setCells sh =
     [(row, col). row \<leftarrow> [0..<length sh], col \<leftarrow> [0..<length (sh ! row)], sh ! row ! col \<noteq> 0]"

text \<open>
  The body of the loops of \<^verbatim>\<open>canPlacePiece\<close>, one set cell after the other, with its
  two early returns. \<^verbatim>\<open>board[newY][newX]\<close> throws when the row \<^verbatim>\<open>board[newY]\<close> is
  missing.
\<close>

fun canPlaceCells :: "board \<Rightarrow> int \<Rightarrow> int \<Rightarrow> (nat \<times> nat) list \<Rightarrow> error + bool" where
  "canPlaceCells brd x y [] = Inr True"
| "canPlaceCells brd x y ((row, col) # rest) =
     (let newX = x + int col;
          newY = y + int row
      in if newX < 0 \<or> newX \<ge> int BOARD_WIDTH \<or> newY \<ge> int BOARD_HEIGHT then Inr False
         else if newY \<ge> 0 then
           (case js_index brd newY of
              None \<Rightarrow> Inl TypeError
            | Some r \<Rightarrow>
                if cell_truthy (cell_at r newX) then Inr False
                else canPlaceCells brd x y rest)
         else canPlaceCells brd x y rest)"

definition canPlacePiece :: "board \<Rightarrow> tetromino \<Rightarrow> int \<Rightarrow> int \<Rightarrow> error + bool" where
  "canPlacePiece brd t x y =
     (case shape t of
        None \<Rightarrow> Inl TypeError
      | Some sh \<Rightarrow> canPlaceCells brd x y (setCells sh))"

text \<open>The call with the default position \<^verbatim>\<open>x = tetromino.x, y = tetromino.y\<close>.\<close>

definition canPlacePiece_default :: "board \<Rightarrow> tetromino \<Rightarrow> error + bool" where
  "canPlacePiece_default brd t = canPlacePiece brd t (piece_x t) (piece_y t)"

definition getTetrominoPositions :: "tetromino \<Rightarrow> error + (int \<times> int) list" where
  "getTetrominoPositions t =
     (case shape t of
        None \<Rightarrow> Inl TypeError
      | Some sh \<Rightarrow>
          Inr (map (\<lambda>(row, col). (piece_x t + int col, piece_y t + int row)) (setCells sh)))"

text \<open>The \<^verbatim>\<open>forEach\<close> of \<^verbatim>\<open>placePiece\<close> over the positions \<open>(x, y)\<close>.\<close>

fun placeCells :: "board \<Rightarrow> cell \<Rightarrow> (int \<times> int) list \<Rightarrow> error + board" where
  "placeCells newBoard v [] = Inr newBoard"
| "placeCells newBoard v ((x, y) # rest) =
     (if y \<ge> 0 \<and> y < int BOARD_HEIGHT \<and> x \<ge> 0 \<and> x < int BOARD_WIDTH then
        (if nat y < length newBoard then
           placeCells (newBoard[nat y := js_set (newBoard ! nat y) (nat x) v]) v rest
         else Inl TypeError)
      else placeCells newBoard v rest)"

definition placePiece :: "board \<Rightarrow> tetromino \<Rightarrow> error + board" where
  "placePiece brd t =
     (case getTetrominoPositions t of
        Inl e \<Rightarrow> Inl e
      | Inr positions \<Rightarrow> placeCells brd (Css (TETROMINO_COLORS (piece_type t))) positions)"

text \<open>\<^verbatim>\<open>board[y].every(cell => cell !== 0)\<close> for \<open>y\<close> below \<^verbatim>\<open>BOARD_HEIGHT\<close>.\<close>

definition findCompleteLines :: "board \<Rightarrow> error + nat list" where
  "findCompleteLines brd =
     (if length brd < BOARD_HEIGHT then Inl TypeError
      else Inr [y \<leftarrow> [0..<BOARD_HEIGHT]. list_all (\<lambda>c. c \<noteq> Zero) (brd ! y)])"

text \<open>\<^verbatim>\<open>while (newBoard.length < BOARD_HEIGHT) newBoard.unshift(Array(BOARD_WIDTH).fill(0))\<close>\<close>

function unshiftEmptyLines :: "board \<Rightarrow> board" where
  "unshiftEmptyLines newBoard =
     (if length newBoard < BOARD_HEIGHT
      then unshiftEmptyLines (replicate BOARD_WIDTH Zero # newBoard)
      else newBoard)"
  by pat_completeness auto
termination
  by (relation "measure (\<lambda>b. BOARD_HEIGHT - length b)") auto

definition clearLines :: "board \<Rightarrow> error + (board \<times> int)" where
  "clearLines brd =
     (case findCompleteLines brd of
        Inl e \<Rightarrow> Inl e
      | Inr completeLines \<Rightarrow>
          if length completeLines = 0 then Inr (brd, 0)
          else
            (let newBoard = map (\<lambda>y. brd ! y) [y \<leftarrow> [0..<BOARD_HEIGHT]. y \<notin> set completeLines]
             in Inr (unshiftEmptyLines newBoard, int (length completeLines))))"

text \<open>The function \<^verbatim>\<open>isGameOver(board, tetromino)\<close> (the state has a field of that name).\<close>

definition isGameOver_check :: "board \<Rightarrow> tetromino \<Rightarrow> error + bool" where
  "isGameOver_check brd t =
     (case canPlacePiece brd t (piece_x t) (piece_y t) of
        Inl e \<Rightarrow> Inl e
      | Inr ok \<Rightarrow> Inr (\<not> ok))"

text \<open>
  The loop of \<^verbatim>\<open>getHardDropDistance\<close>, started with \<open>distance = 0\<close>. Nothing in the
  code bounds it, so it is a partial function: \<open>None\<close> is a loop that never ends,
  \<open>Some (Inl e)\<close> one that throws \<open>e\<close>, \<open>Some (Inr d)\<close> one that returns \<open>d\<close>.
\<close>

partial_function (option) hardDropLoop :: "board \<Rightarrow> tetromino \<Rightarrow> int \<Rightarrow> (error + int) option" where
  "hardDropLoop brd t distance =
     (case canPlacePiece brd t (piece_x t) (piece_y t + distance + 1) of
        Inl e \<Rightarrow> Some (Inl e)
      | Inr ok \<Rightarrow> if ok then hardDropLoop brd t (distance + 1) else Some (Inr distance))"

declare hardDropLoop.simps [code]

definition getHardDropDistance :: "board \<Rightarrow> tetromino \<Rightarrow> (error + int) option" where
  "getHardDropDistance brd t = hardDropLoop brd t 0"

definition validateBoard :: "board \<Rightarrow> bool" where
  "validateBoard brd \<longleftrightarrow>
     length brd = BOARD_HEIGHT \<and>
     list_all (\<lambda>row. length row = BOARD_WIDTH \<and> list_all (\<lambda>c. c \<noteq> Undefined) row) brd"


section \<open>Game state and reducer (hooks/useGameState.js)\<close>

text \<open>
  The player name is free text, so it is a JavaScript string as such: the list of its
  UTF-16 code units. (The CSS class strings and action tags above are ASCII literals.)
\<close>

type_synonym js_string = "nat list"

definition js_string_of :: "string \<Rightarrow> js_string" where
  "js_string_of cs = map of_char cs"

record game_state =
  board :: board
  currentPiece :: "tetromino option"
  nextPiece :: "tetromino option"
  holdPiece :: "tetromino option"
  canHold :: bool
  score :: int
  lines :: int
  level :: int
  isGameOver :: bool
  isPaused :: bool
  gameState :: game_states
  playerName :: js_string
  gameStartTime :: int
  lastDropTime :: int
  tetrominoBag :: "tetromino_type list"
  bagIndex :: nat
  shouldSpawnNext :: bool
  gameEndTime :: "int option"

text \<open>
  What a call reads from outside: \<open>now\<close> is the value of \<^verbatim>\<open>Date.now()\<close> (one value
  for all the reads of one call), \<open>rand\<close> the source behind \<^verbatim>\<open>Math.random()\<close> (see
  \<open>shuffleLoop\<close>).
\<close>

record env =
  now :: int
  rand :: "nat \<Rightarrow> nat"

text \<open>
  \<^verbatim>\<open>String.prototype.trim\<close> strips the white space and line terminators of ECMAScript
  from both ends: TAB, LF, VT, FF, CR, SP, NBSP, U+1680, U+2000 to U+200A, U+2028,
  U+2029, U+202F, U+205F, U+3000 and U+FEFF, each a single code unit.
\<close>

definition js_whitespace :: "nat \<Rightarrow> bool" where
  "js_whitespace c \<longleftrightarrow>
     c \<in> set [0x09, 0x0A, 0x0B, 0x0C, 0x0D, 0x20, 0xA0, 0x1680,
                0x2000, 0x2001, 0x2002, 0x2003, 0x2004, 0x2005, 0x2006, 0x2007, 0x2008,
                0x2009, 0x200A, 0x2028, 0x2029, 0x202F, 0x205F, 0x3000, 0xFEFF]"

definition trim :: "js_string \<Rightarrow> js_string" where
  "trim s = rev (dropWhile js_whitespace (rev (dropWhile js_whitespace s)))"

definition createInitialGameState :: "env \<Rightarrow> js_string \<Rightarrow> game_state" where
  "createInitialGameState e name =
     (let validPlayerName = (if name \<noteq> [] \<and> trim name \<noteq> [] then trim name else [])
      in \<lparr> board = createEmptyBoard,
           currentPiece = None,
           nextPiece = None,
           holdPiece = None,
           canHold = True,
           score = 0,
           lines = 0,
           level = 1,
           isGameOver = False,
           isPaused = False,
           gameState = GS_MENU,
           playerName = validPlayerName,
           gameStartTime = now e,
           lastDropTime = now e,
           tetrominoBag = [],
           bagIndex = 0,
           shouldSpawnNext = False,
           gameEndTime = None \<rparr>)"

text \<open>
  The payload of \<^verbatim>\<open>LOAD_STATE\<close> is an object whose properties overwrite those of the
  state (\<^verbatim>\<open>{ ...state, ...action.gameState }\<close>): a list of property assignments.
\<close>

datatype property =
    P_board board
  | P_currentPiece "tetromino option"
  | P_nextPiece "tetromino option"
  | P_holdPiece "tetromino option"
  | P_canHold bool
  | P_score int
  | P_lines int
  | P_level int
  | P_isGameOver bool
  | P_isPaused bool
  | P_gameState game_states
  | P_playerName js_string
  | P_gameStartTime int
  | P_lastDropTime int
  | P_tetrominoBag "tetromino_type list"
  | P_bagIndex nat
  | P_shouldSpawnNext bool
  | P_gameEndTime "int option"

fun assign :: "property \<Rightarrow> game_state \<Rightarrow> game_state" where
  "assign (P_board v) s = s\<lparr>board := v\<rparr>"
| "assign (P_currentPiece v) s = s\<lparr>currentPiece := v\<rparr>"
| "assign (P_nextPiece v) s = s\<lparr>nextPiece := v\<rparr>"
| "assign (P_holdPiece v) s = s\<lparr>holdPiece := v\<rparr>"
| "assign (P_canHold v) s = s\<lparr>canHold := v\<rparr>"
| "assign (P_score v) s = s\<lparr>score := v\<rparr>"
| "assign (P_lines v) s = s\<lparr>lines := v\<rparr>"
| "assign (P_level v) s = s\<lparr>level := v\<rparr>"
| "assign (P_isGameOver v) s = s\<lparr>isGameOver := v\<rparr>"
| "assign (P_isPaused v) s = s\<lparr>isPaused := v\<rparr>"
| "assign (P_gameState v) s = s\<lparr>gameState := v\<rparr>"
| "assign (P_playerName v) s = s\<lparr>playerName := v\<rparr>"
| "assign (P_gameStartTime v) s = s\<lparr>gameStartTime := v\<rparr>"
| "assign (P_lastDropTime v) s = s\<lparr>lastDropTime := v\<rparr>"
| "assign (P_tetrominoBag v) s = s\<lparr>tetrominoBag := v\<rparr>"
| "assign (P_bagIndex v) s = s\<lparr>bagIndex := v\<rparr>"
| "assign (P_shouldSpawnNext v) s = s\<lparr>shouldSpawnNext := v\<rparr>"
| "assign (P_gameEndTime v) s = s\<lparr>gameEndTime := v\<rparr>"

text \<open>
  The actions. \<^verbatim>\<open>DROP_PIECE\<close>, \<^verbatim>\<open>GAME_OVER\<close> and \<^verbatim>\<open>UPDATE_SCORE\<close> are declared in
  \<^verbatim>\<open>GAME_ACTIONS\<close> and have no case in the reducer; \<open>OTHER tag\<close> is an action whose
  type is any other value.
\<close>

datatype action =
    INITIALIZE js_string
  | START_GAME
  | MOVE_PIECE int int
  | ROTATE_PIECE
  | DROP_PIECE
  | SOFT_DROP
  | HARD_DROP
  | PLACE_PIECE
  | HOLD_PIECE
  | PAUSE_GAME
  | RESUME_GAME
  | RESET_GAME
  | GAME_OVER
  | UPDATE_SCORE
  | LOAD_STATE "property list"
  | SPAWN_PIECE
  | OTHER string

text \<open>
  A call of the reducer returns a state (\<open>Some (Inr s)\<close>), throws (\<open>Some (Inl e)\<close>) or
  never returns (\<open>None\<close>). The \<^verbatim>\<open>console.warn\<close> of the default case writes a log line
  and is left out.
\<close>

type_synonym outcome = "(error + game_state) option"

abbreviation returns :: "game_state \<Rightarrow> outcome" where
  "returns s \<equiv> Some (Inr s)"

abbreviation throws :: "error \<Rightarrow> outcome" where
  "throws e \<equiv> Some (Inl e)"

text \<open>
  The lock-in that \<^verbatim>\<open>SOFT_DROP\<close>, \<^verbatim>\<open>HARD_DROP\<close> and \<^verbatim>\<open>PLACE_PIECE\<close> each write out:
  place the piece, clear the lines, add the line score (and the drop points, 0 but for a
  hard drop) to the score, recompute lines and level.
\<close>

definition lockIn :: "game_state \<Rightarrow> tetromino \<Rightarrow> int \<Rightarrow> outcome" where
  "lockIn s piece dropPoints =
     (case placePiece (board s) piece of
        Inl e \<Rightarrow> throws e
      | Inr placedBoard \<Rightarrow>
          (case clearLines placedBoard of
             Inl e \<Rightarrow> throws e
           | Inr (clearedBoard, linesCleared) \<Rightarrow>
               (let lineScore = calculateLineScore linesCleared (level s);
                    newLines = lines s + linesCleared;
                    newLevel = calculateLevel newLines;
                    newScore = score s + dropPoints + lineScore
                in returns (s\<lparr> board := clearedBoard,
                               currentPiece := None,
                               score := newScore,
                               lines := newLines,
                               level := newLevel,
                               canHold := True,
                               shouldSpawnNext := True \<rparr>))))"

fun gameStateReducer :: "env \<Rightarrow> game_state \<Rightarrow> action \<Rightarrow> outcome" where
  "gameStateReducer e s (INITIALIZE name) = returns (createInitialGameState e name)"
| "gameStateReducer e s START_GAME =
     (let bag = createTetrominoBag (rand e)
      in case createTetromino_default (js_index bag 0) of
           Inl err \<Rightarrow> throws err
         | Inr firstPiece \<Rightarrow>
             (case createTetromino_default (js_index bag 1) of
                Inl err \<Rightarrow> throws err
              | Inr secondPiece \<Rightarrow>
                  returns (s\<lparr> gameState := GS_PLAYING,
                              currentPiece := Some firstPiece,
                              nextPiece := Some secondPiece,
                              tetrominoBag := drop 2 bag,
                              bagIndex := 2,
                              isGameOver := False,
                              isPaused := False,
                              gameStartTime := now e,
                              lastDropTime := now e \<rparr>)))"
| "gameStateReducer e s (MOVE_PIECE deltaX deltaY) =
     (case currentPiece s of
        None \<Rightarrow> returns s
      | Some cur \<Rightarrow>
          if isPaused s \<or> isGameOver s then returns s
          else
            (let newX = piece_x cur + deltaX;
                 newY = piece_y cur + deltaY
             in case canPlacePiece (board s) cur newX newY of
                  Inl err \<Rightarrow> throws err
                | Inr ok \<Rightarrow>
                    if ok then returns (s\<lparr>currentPiece := Some (cur\<lparr>piece_x := newX, piece_y := newY\<rparr>)\<rparr>)
                    else returns s))"
| "gameStateReducer e s ROTATE_PIECE =
     (case currentPiece s of
        None \<Rightarrow> returns s
      | Some cur \<Rightarrow>
          if isPaused s \<or> isGameOver s then returns s
          else
            (let rotatedPiece = rotateTetromino cur
             in case canPlacePiece_default (board s) rotatedPiece of
                  Inl err \<Rightarrow> throws err
                | Inr ok \<Rightarrow>
                    if ok then returns (s\<lparr>currentPiece := Some rotatedPiece\<rparr>)
                    else returns s))"
| "gameStateReducer e s SOFT_DROP =
     (case currentPiece s of
        None \<Rightarrow> returns s
      | Some cur \<Rightarrow>
          if isPaused s \<or> isGameOver s then returns s
          else
            (let newYSoft = piece_y cur + 1
             in case canPlacePiece (board s) cur (piece_x cur) newYSoft of
                  Inl err \<Rightarrow> throws err
                | Inr ok \<Rightarrow>
                    if ok then
                      returns (s\<lparr> currentPiece := Some (cur\<lparr>piece_y := newYSoft\<rparr>),
                                  score := score s + calculateSoftDropScore 1,
                                  lastDropTime := now e \<rparr>)
                    else lockIn s cur 0))"
| "gameStateReducer e s HARD_DROP =
     (case currentPiece s of
        None \<Rightarrow> returns s
      | Some cur \<Rightarrow>
          if isPaused s \<or> isGameOver s then returns s
          else
            (case getHardDropDistance (board s) cur of
               None \<Rightarrow> None
             | Some (Inl err) \<Rightarrow> throws err
             | Some (Inr dropDistance) \<Rightarrow>
                 (let hardDropPoints = calculateHardDropScore dropDistance;
                      droppedPiece = cur\<lparr>piece_y := piece_y cur + dropDistance\<rparr>
                  in lockIn s droppedPiece hardDropPoints)))"
| "gameStateReducer e s PLACE_PIECE =
     (case currentPiece s of
        None \<Rightarrow> returns s
      | Some cur \<Rightarrow> lockIn s cur 0)"
| "gameStateReducer e s SPAWN_PIECE =
     (case nextPiece s of
        None \<Rightarrow> returns s
      | Some newCurrentPiece \<Rightarrow>
          if isGameOver s then returns s
          else
            (let fresh = (bagIndex s \<ge> length (tetrominoBag s));
                 currentBag = (if fresh then createTetrominoBag (rand e) else tetrominoBag s);
                 idx = (if fresh then 0 else bagIndex s)
             in case createTetromino_default (js_index currentBag (int idx)) of
                  Inl err \<Rightarrow> throws err
                | Inr newNextPiece \<Rightarrow>
                    (case isGameOver_check (board s) newCurrentPiece of
                       Inl err \<Rightarrow> throws err
                     | Inr over \<Rightarrow>
                         if over then
                           returns (s\<lparr> isGameOver := True,
                                       gameState := GS_GAME_OVER,
                                       gameEndTime := Some (now e),
                                       playerName := (if playerName s \<noteq> [] then playerName s
                                                      else js_string_of ''Player'') \<rparr>)
                         else
                           returns (s\<lparr> currentPiece := Some newCurrentPiece,
                                       nextPiece := Some newNextPiece,
                                       tetrominoBag := currentBag,
                                       bagIndex := idx + 1,
                                       shouldSpawnNext := False \<rparr>))))"
| "gameStateReducer e s HOLD_PIECE =
     (case currentPiece s of
        None \<Rightarrow> returns s
      | Some cur \<Rightarrow>
          if isPaused s \<or> isGameOver s \<or> \<not> canHold s then returns s
          else
            (let newHoldPiece = cur\<lparr>piece_x := 3, piece_y := - 1, rotation := 0\<rparr>
             in case holdPiece s of
                  Some held \<Rightarrow>
                    returns (s\<lparr> currentPiece := Some (held\<lparr>piece_x := 3, piece_y := - 1\<rparr>),
                                holdPiece := Some newHoldPiece,
                                canHold := False \<rparr>)
                | None \<Rightarrow>
                    returns (s\<lparr> currentPiece := nextPiece s,
                                holdPiece := Some newHoldPiece,
                                canHold := False,
                                shouldSpawnNext := True \<rparr>)))"
| "gameStateReducer e s PAUSE_GAME =
     (if isGameOver s then returns s
      else returns (s\<lparr>isPaused := True, gameState := GS_PAUSED\<rparr>))"
| "gameStateReducer e s RESUME_GAME =
     (if isGameOver s then returns s
      else returns (s\<lparr>isPaused := False, gameState := GS_PLAYING, lastDropTime := now e\<rparr>))"
| "gameStateReducer e s RESET_GAME =
     (let playerNameToKeep = (if playerName s \<noteq> [] then playerName s else js_string_of ''Player'')
      in returns (createInitialGameState e playerNameToKeep))"
| "gameStateReducer e s (LOAD_STATE props) = returns (fold assign props s)"
| "gameStateReducer e s DROP_PIECE = returns s"
| "gameStateReducer e s GAME_OVER = returns s"
| "gameStateReducer e s UPDATE_SCORE = returns s"
| "gameStateReducer e s (OTHER tag) = returns s"


text \<open>Dispatching a sequence of actions, each with what it reads from outside.\<close>

fun dispatchAll :: "game_state \<Rightarrow> (env \<times> action) list \<Rightarrow> outcome" where
  "dispatchAll s [] = returns s"
| "dispatchAll s ((e, a) # rest) =
     (case gameStateReducer e s a of
        None \<Rightarrow> None
      | Some (Inl err) \<Rightarrow> throws err
      | Some (Inr s') \<Rightarrow> dispatchAll s' rest)"


text \<open>
  The values of an observation \<open>f\<close> on the states a sequence of actions goes through (cut
  where an action throws or does not return), and the state a sequence ends in.
\<close>

fun trace :: "(game_state \<Rightarrow> 'a) \<Rightarrow> game_state \<Rightarrow> (env \<times> action) list \<Rightarrow> 'a list" where
  "trace f s [] = []"
| "trace f s ((e, a) # rest) =
     (case gameStateReducer e s a of
        Some (Inr s') \<Rightarrow> f s' # trace f s' rest
      | _ \<Rightarrow> [])"

definition state_after :: "game_state \<Rightarrow> (env \<times> action) list \<Rightarrow> game_state" where
  "state_after s acts = (case dispatchAll s acts of Some (Inr s') \<Rightarrow> s' | _ \<Rightarrow> s)"

text \<open>What the spawn pipeline holds: the types of the current and next piece, the bag, the index.\<close>

definition bagView ::
  "game_state \<Rightarrow> tetromino_type option \<times> tetromino_type option \<times> tetromino_type list \<times> nat" where
  "bagView s =
     (map_option piece_type (currentPiece s), map_option piece_type (nextPiece s),
      tetrominoBag s, bagIndex s)"


section \<open>Notions used to state the properties\<close>

text \<open>A row is complete when no cell of it is 0.\<close>

definition completeRow :: "cell list \<Rightarrow> bool" where
  "completeRow row \<longleftrightarrow> list_all (\<lambda>c. c \<noteq> Zero) row"

definition emptyRow :: "cell list" where
  "emptyRow = replicate BOARD_WIDTH Zero"

text \<open>
  The states of the data model. The types above already make the bag a list of the seven
  kinds and every position, rotation and count an integer; beyond that, the board has
  \<^verbatim>\<open>BOARD_HEIGHT\<close> rows, and each piece (current, next, held) has a rotation index in
  \<open>0 .. 3\<close> and a shape with at least one set cell.
\<close>

definition valid_piece :: "tetromino \<Rightarrow> bool" where
  "valid_piece p \<longleftrightarrow>
     0 \<le> rotation p \<and> rotation p < 4 \<and>
     (case shape p of None \<Rightarrow> False | Some sh \<Rightarrow> setCells sh \<noteq> [])"

fun valid_slot :: "tetromino option \<Rightarrow> bool" where
  "valid_slot None = True"
| "valid_slot (Some p) = valid_piece p"

definition valid_state :: "game_state \<Rightarrow> bool" where
  "valid_state s \<longleftrightarrow>
     length (board s) = BOARD_HEIGHT \<and>
     valid_slot (currentPiece s) \<and> valid_slot (nextPiece s) \<and> valid_slot (holdPiece s)"


text \<open>
  The commands of the game are the actions other than \<^verbatim>\<open>LOAD_STATE\<close>, which restores a
  stored snapshot: \<open>engine_actions\<close> holds of a sequence of commands.
\<close>

fun is_LOAD_STATE :: "action \<Rightarrow> bool" where
  "is_LOAD_STATE (LOAD_STATE props) = True"
| "is_LOAD_STATE a = False"

definition engine_actions :: "(env \<times> action) list \<Rightarrow> bool" where
  "engine_actions acts = list_all (\<lambda>(e, a). \<not> is_LOAD_STATE a) acts"

text \<open>The next piece, if there is one, sits at the spawn anchor \<open>(3, -1)\<close>.\<close>

definition next_at_spawn :: "game_state \<Rightarrow> bool" where
  "next_at_spawn s =
     (case nextPiece s of None \<Rightarrow> True | Some p \<Rightarrow> piece_x p = 3 \<and> piece_y p = - 1)"

text \<open>Inputs on which the properties are exercised.\<close>

definition T_at_spawn :: tetromino where
  "T_at_spawn = \<lparr> piece_type = Type_T, piece_x = 3, piece_y = - 1, rotation = 0,
                   shape = Some (TETROMINO_SHAPES Type_T ! 0), color = TETROMINO_COLORS Type_T \<rparr>"

definition blank_piece :: tetromino where
  "blank_piece = T_at_spawn\<lparr>shape := Some (replicate 4 (replicate 4 0))\<rparr>"

definition bottom_row_full :: board where
  "bottom_row_full = replicate 19 emptyRow @ [replicate 10 (Css ''tetromino-i'')]"


text \<open>
  A clock that reads 0 and a random source whose every draw picks index 0; the state the
  application starts in; a game just started.
\<close>

definition fixed_env :: env where
  "fixed_env = \<lparr> now = 0, rand = (\<lambda>k. 0) \<rparr>"

definition initial_state :: game_state where
  "initial_state = createInitialGameState fixed_env []"

definition started_state :: game_state where
  "started_state = state_after initial_state [(fixed_env, START_GAME)]"

text \<open>
  A game played to its end: after \<^verbatim>\<open>START_GAME\<close>, nine pieces are dropped and followed
  by the next one, and a tenth is dropped. The pile then reaches the top.
\<close>

definition stacking_actions :: "(env \<times> action) list" where
  "stacking_actions =
     (fixed_env, START_GAME) #
     concat (replicate 9 [(fixed_env, HARD_DROP), (fixed_env, SPAWN_PIECE)]) @
     [(fixed_env, HARD_DROP)]"

definition stacked_state :: game_state where
  "stacked_state = state_after initial_state stacking_actions"


section \<open>The piece catalogue\<close>

lemma length_TETROMINO_SHAPES: "length (TETROMINO_SHAPES ty) = 4"
  by (cases ty) simp_all

lemma TETROMINO_SHAPES_masks:
  assumes "k < 4"
  shows "length (TETROMINO_SHAPES ty ! k) = 4 \<and>
         list_all (\<lambda>row. length row = 4 \<and> list_all (\<lambda>v. v = 0 \<or> v = 1) row) (TETROMINO_SHAPES ty ! k)"
proof -
  from assms have "k = 0 \<or> k = 1 \<or> k = 2 \<or> k = 3" by arith
  then show ?thesis by (cases ty) auto
qed

lemma all_types_listed: "ty \<in> set TETROMINO_TYPES"
  by (cases ty) (simp_all add: TETROMINO_TYPES_def)

lemma js_rem_nonneg: "0 \<le> a \<Longrightarrow> js_rem a 4 = a mod 4"
  by (cases "a = 0") (simp_all add: js_rem_def)

text \<open>
  For a rotation that is not negative, \<^verbatim>\<open>createTetromino\<close> does take it modulo 4 and
  finds a 4 by 4 mask of zeros and ones.
\<close>

lemma createTetromino_nonneg_rotation:
  assumes "0 \<le> rot"
  shows "createTetromino (Some ty) x y rot =
           Inr \<lparr> piece_type = ty, piece_x = x, piece_y = y, rotation = rot mod 4,
                 shape = Some (TETROMINO_SHAPES ty ! nat (rot mod 4)),
                 color = TETROMINO_COLORS ty \<rparr>"
  using assms
  by (simp add: createTetromino_def all_types_listed js_rem_nonneg js_index_def
      length_TETROMINO_SHAPES)

text \<open>
  C9. Shape lookup is claimed to normalise every integer rotation, negative ones too,
  modulo 4 and to yield a 4 by 4 mask. With rotation \<open>-1\<close> the remainder \<^verbatim>\<open>-1 % 4\<close> is
  \<open>-1\<close>: the piece \<^verbatim>\<open>createTetromino('T', 3, -1, -1)\<close> has rotation \<open>-1\<close> and no shape.
\<close>

theorem createTetromino_negative_rotation:
  "createTetromino (Some Type_T) 3 (- 1) (- 1) =
     Inr \<lparr> piece_type = Type_T, piece_x = 3, piece_y = - 1, rotation = - 1,
           shape = None, color = ''tetromino-t'' \<rparr>"
  by (simp add: createTetromino_def TETROMINO_TYPES_def js_rem_def js_index_def)


section \<open>The drop cadence\<close>

text \<open>
  C2. The drop interval is claimed to be \<open>max 50 (1000 - (level - 1) * 100)\<close>: 1000 at
  level 1, the floor 50 at level 11. The function of utils/gameLogic.js computes that.
  The one the game loop uses subtracts \<open>level * 100\<close> and gives 900 at level 1; the one
  of utils/scoring.js steps by 50 and gives 500 at level 11.
\<close>

theorem calculateDropSpeed_disagree:
  "useGame_calculateDropSpeed 1 = 900 \<and>
   scoring_calculateDropSpeed 11 = 500 \<and>
   (\<forall>lvl. gameLogic_calculateDropSpeed lvl = max 50 (1000 - (lvl - 1) * 100))"
  by (simp add: useGame_calculateDropSpeed_def scoring_calculateDropSpeed_def
      gameLogic_calculateDropSpeed_def INITIAL_DROP_SPEED_def SPEED_INCREASE_PER_LEVEL_def
      MIN_DROP_SPEED_def)



section \<open>Placement\<close>

lemma set_setCells:
  "(r, c) \<in> set (setCells sh) \<longleftrightarrow> r < length sh \<and> c < length (sh ! r) \<and> sh ! r ! c \<noteq> 0"
  by (auto simp: setCells_def)

lemma ball_setCells:
  "(\<forall>(r, c) \<in> set (setCells sh). P r c) \<longleftrightarrow>
   (\<forall>row col. row < length sh \<and> col < length (sh ! row) \<and> sh ! row ! col \<noteq> 0 \<longrightarrow> P row col)"
proof
  assume l: "\<forall>(r, c) \<in> set (setCells sh). P r c"
  show "\<forall>row col. row < length sh \<and> col < length (sh ! row) \<and> sh ! row ! col \<noteq> 0 \<longrightarrow> P row col"
  proof (intro allI impI)
    fix row col
    assume "row < length sh \<and> col < length (sh ! row) \<and> sh ! row ! col \<noteq> 0"
    then have "(row, col) \<in> set (setCells sh)" by (simp add: set_setCells)
    with l show "P row col" by blast
  qed
next
  assume r: "\<forall>row col. row < length sh \<and> col < length (sh ! row) \<and> sh ! row ! col \<noteq> 0 \<longrightarrow> P row col"
  show "\<forall>(r, c) \<in> set (setCells sh). P r c"
  proof (clarify)
    fix a b assume "(a, b) \<in> set (setCells sh)"
    then have "a < length sh \<and> b < length (sh ! a) \<and> sh ! a ! b \<noteq> 0" by (simp add: set_setCells)
    with r show "P a b" by blast
  qed
qed

lemma canPlaceCells_total:
  assumes "BOARD_HEIGHT \<le> length brd"
  shows "canPlaceCells brd x y cs =
     Inr (\<forall>(r, c) \<in> set cs.
            0 \<le> x + int c \<and> x + int c < int BOARD_WIDTH \<and> y + int r < int BOARD_HEIGHT \<and>
            (0 \<le> y + int r \<longrightarrow> \<not> cell_truthy (cell_at (brd ! nat (y + int r)) (x + int c))))"
  using assms
  by (induction cs) (auto simp: Let_def js_index_def split: option.splits)

lemma canPlaceCells_True_bounds:
  "canPlaceCells brd x y cs = Inr True \<Longrightarrow> (r, c) \<in> set cs \<Longrightarrow>
     0 \<le> x + int c \<and> x + int c < int BOARD_WIDTH \<and> y + int r < int BOARD_HEIGHT"
  by (induction cs) (auto simp: Let_def split: if_splits option.splits)

lemma canPlacePiece_True_row:
  assumes "canPlacePiece brd t x y = Inr True" and "shape t = Some sh" and "(r, c) \<in> set (setCells sh)"
  shows "y + int r < int BOARD_HEIGHT"
  using assms canPlaceCells_True_bounds[of brd x y "setCells sh" r c]
  by (simp add: canPlacePiece_def)

lemma canPlacePiece_never_throws:
  assumes "BOARD_HEIGHT \<le> length brd" and "shape t = Some sh"
  shows "\<exists>b. canPlacePiece brd t x y = Inr b"
  using assms by (simp add: canPlacePiece_def canPlaceCells_total)

lemma canPlacePiece_shape:
  "canPlacePiece brd t x y = Inr b \<Longrightarrow> \<exists>sh. shape t = Some sh"
  by (auto simp: canPlacePiece_def split: option.splits)

text \<open>
  C6. On a board of \<^verbatim>\<open>BOARD_HEIGHT\<close> rows, for a piece with a shape and any position
  \<open>(x, y)\<close>, \<^verbatim>\<open>canPlacePiece\<close> returns (it does not throw), and it returns true exactly
  when every set cell \<open>(row, col)\<close> of the shape has its column \<open>x + col\<close> in
  \<open>0 .. BOARD_WIDTH - 1\<close>, its row \<open>y + row\<close> below \<^verbatim>\<open>BOARD_HEIGHT\<close>, and, if that row
  is not negative, a board cell there that is empty (0, or anything else falsy). A set
  cell in a negative row is not compared with the board.
\<close>

theorem canPlacePiece_iff:
  assumes "BOARD_HEIGHT \<le> length brd" and "shape t = Some sh"
  shows "canPlacePiece brd t x y =
     Inr (\<forall>row col. row < length sh \<and> col < length (sh ! row) \<and> sh ! row ! col \<noteq> 0 \<longrightarrow>
            0 \<le> x + int col \<and> x + int col < int BOARD_WIDTH \<and> y + int row < int BOARD_HEIGHT \<and>
            (0 \<le> y + int row \<longrightarrow> \<not> cell_truthy (cell_at (brd ! nat (y + int row)) (x + int col))))"
proof -
  have "canPlacePiece brd t x y = canPlaceCells brd x y (setCells sh)"
    using assms(2) by (simp add: canPlacePiece_def)
  also have "\<dots> = Inr (\<forall>(r, c) \<in> set (setCells sh).
            0 \<le> x + int c \<and> x + int c < int BOARD_WIDTH \<and> y + int r < int BOARD_HEIGHT \<and>
            (0 \<le> y + int r \<longrightarrow> \<not> cell_truthy (cell_at (brd ! nat (y + int r)) (x + int c))))"
    using assms(1) by (rule canPlaceCells_total)
  also have "\<dots> = Inr (\<forall>row col. row < length sh \<and> col < length (sh ! row) \<and> sh ! row ! col \<noteq> 0 \<longrightarrow>
            0 \<le> x + int col \<and> x + int col < int BOARD_WIDTH \<and> y + int row < int BOARD_HEIGHT \<and>
            (0 \<le> y + int row \<longrightarrow> \<not> cell_truthy (cell_at (brd ! nat (y + int row)) (x + int col))))"
    by (simp only: ball_setCells)
  finally show ?thesis .
qed

text \<open>
  On the empty board the T piece fits at the spawn anchor and one row higher, where a set
  cell is above the board, and not at column 8; above a full bottom row it fits down to
  row 16 and no further.
\<close>

theorem canPlacePiece_iff_witness:
  "BOARD_HEIGHT \<le> length createEmptyBoard \<and>
   BOARD_HEIGHT \<le> length bottom_row_full \<and>
   shape T_at_spawn = Some (TETROMINO_SHAPES Type_T ! 0) \<and>
   canPlacePiece createEmptyBoard T_at_spawn 3 (- 1) = Inr True \<and>
   canPlacePiece createEmptyBoard T_at_spawn 3 (- 2) = Inr True \<and>
   canPlacePiece createEmptyBoard T_at_spawn 8 (- 1) = Inr False \<and>
   canPlacePiece bottom_row_full T_at_spawn 3 16 = Inr True \<and>
   canPlacePiece bottom_row_full T_at_spawn 3 17 = Inr False"
proof -
  have h1: "BOARD_HEIGHT \<le> length createEmptyBoard" by (simp add: createEmptyBoard_def)
  have h3: "BOARD_HEIGHT \<le> length bottom_row_full" by code_simp
  have h2: "shape T_at_spawn = Some (TETROMINO_SHAPES Type_T ! 0)" by (simp add: T_at_spawn_def)
  have v1: "canPlacePiece createEmptyBoard T_at_spawn 3 (- 1) = Inr True" by code_simp
  have v2: "canPlacePiece createEmptyBoard T_at_spawn 8 (- 1) = Inr False" by code_simp
  have v3: "canPlacePiece createEmptyBoard T_at_spawn 3 (- 2) = Inr True" by code_simp
  have v4: "canPlacePiece bottom_row_full T_at_spawn 3 16 = Inr True" by code_simp
  have v5: "canPlacePiece bottom_row_full T_at_spawn 3 17 = Inr False" by code_simp
  note canPlacePiece_iff[OF h1 h2, of 3 "- 1"] canPlacePiece_iff[OF h1 h2, of 8 "- 1"]
    canPlacePiece_iff[OF h1 h2, of 3 "- 2"] canPlacePiece_iff[OF h3 h2, of 3 16]
    canPlacePiece_iff[OF h3 h2, of 3 17]
  with h1 h2 h3 v1 v2 v3 v4 v5 show ?thesis by blast
qed

section \<open>Clearing lines\<close>

lemma unshiftEmptyLines_eq:
  "unshiftEmptyLines nb = replicate (BOARD_HEIGHT - length nb) emptyRow @ nb"
proof (induction nb rule: unshiftEmptyLines.induct)
  case (1 nb)
  show ?case
  proof (cases "length nb < BOARD_HEIGHT")
    case True
    then have "BOARD_HEIGHT - length nb = Suc (BOARD_HEIGHT - Suc (length nb))" by simp
    with True 1 show ?thesis
      by (subst unshiftEmptyLines.simps) (simp add: replicate_app_Cons_same emptyRow_def)
  next
    case False
    then show ?thesis by (subst unshiftEmptyLines.simps) simp
  qed
qed

lemma map_nth_filter:
  "map (\<lambda>y. xs ! y) [y \<leftarrow> [0..<length xs]. Q (xs ! y)] = filter Q xs"
proof -
  have "filter Q xs = filter Q (map (\<lambda>y. xs ! y) [0..<length xs])" by (simp add: map_nth)
  also have "\<dots> = map (\<lambda>y. xs ! y) (filter (Q \<circ> (\<lambda>y. xs ! y)) [0..<length xs])"
    by (rule filter_map)
  finally show ?thesis by (simp add: comp_def)
qed

lemma length_filter_index:
  "length [y \<leftarrow> [0..<length xs]. Q (xs ! y)] = length (filter Q xs)"
  by (metis length_map map_nth_filter)

lemma findCompleteLines_eq:
  "length brd = BOARD_HEIGHT \<Longrightarrow>
   findCompleteLines brd = Inr [y \<leftarrow> [0..<length brd]. completeRow (brd ! y)]"
  by (simp add: findCompleteLines_def completeRow_def)

lemma clearLines_eq:
  assumes "length brd = BOARD_HEIGHT"
  shows "clearLines brd =
           Inr (replicate (length (filter completeRow brd)) emptyRow
                  @ filter (\<lambda>row. \<not> completeRow row) brd,
                int (length (filter completeRow brd)))"
proof -
  let ?cl = "[y \<leftarrow> [0..<length brd]. completeRow (brd ! y)]"
  let ?n = "length (filter completeRow brd)"
  let ?keep = "filter (\<lambda>row. \<not> completeRow row) brd"
  have fc: "findCompleteLines brd = Inr ?cl" using assms by (rule findCompleteLines_eq)
  have len_cl: "length ?cl = ?n" by (rule length_filter_index)
  have sum: "?n + length ?keep = BOARD_HEIGHT"
    using sum_length_filter_compl[of completeRow brd] assms by simp
  have keep: "map (\<lambda>y. brd ! y) [y \<leftarrow> [0..<BOARD_HEIGHT]. y \<notin> set ?cl] = ?keep"
  proof -
    have "[y \<leftarrow> [0..<BOARD_HEIGHT]. y \<notin> set ?cl] = [y \<leftarrow> [0..<length brd]. \<not> completeRow (brd ! y)]"
      using assms by (auto intro: filter_cong)
    then show ?thesis using map_nth_filter[of brd "\<lambda>row. \<not> completeRow row"] by simp
  qed
  show ?thesis
  proof (cases "?n = 0")
    case True
    then have "?keep = brd" by (auto simp: filter_id_conv filter_empty_conv)
    with True fc len_cl show ?thesis by (simp add: clearLines_def)
  next
    case False
    have "clearLines brd = Inr (unshiftEmptyLines ?keep, int ?n)"
      using fc len_cl False keep by (simp add: clearLines_def Let_def)
    moreover have n: "BOARD_HEIGHT - length ?keep = ?n" using sum by linarith
    have "unshiftEmptyLines ?keep = replicate ?n emptyRow @ ?keep"
      by (simp only: unshiftEmptyLines_eq n)
    ultimately show ?thesis by simp
  qed
qed

lemma length_clearLines:
  assumes "length brd = BOARD_HEIGHT" and "clearLines brd = Inr (newBoard, n)"
  shows "length newBoard = BOARD_HEIGHT"
proof -
  have "length (filter completeRow brd) + length (filter (\<lambda>row. \<not> completeRow row) brd) = BOARD_HEIGHT"
    using sum_length_filter_compl[of completeRow brd] assms(1) by simp
  with assms(2) clearLines_eq[OF assms(1)] show ?thesis by auto
qed

text \<open>
  C7. On a board of \<^verbatim>\<open>BOARD_HEIGHT\<close> rows of \<^verbatim>\<open>BOARD_WIDTH\<close> cells, \<^verbatim>\<open>clearLines\<close>
  returns the number \<open>n\<close> of complete rows and the board made of \<open>n\<close> empty rows
  followed by the rows that are not complete, in their order; that board has again
  \<^verbatim>\<open>BOARD_HEIGHT\<close> rows of \<^verbatim>\<open>BOARD_WIDTH\<close> cells, and is the given board when no row
  is complete.
\<close>

theorem clearLines_spec:
  assumes "length brd = BOARD_HEIGHT" and "list_all (\<lambda>row. length row = BOARD_WIDTH) brd"
  shows "\<exists>newBoard n.
           clearLines brd = Inr (newBoard, int n) \<and>
           n = length (filter completeRow brd) \<and>
           newBoard = replicate n emptyRow @ filter (\<lambda>row. \<not> completeRow row) brd \<and>
           length newBoard = BOARD_HEIGHT \<and>
           list_all (\<lambda>row. length row = BOARD_WIDTH) newBoard \<and>
           (n = 0 \<longrightarrow> newBoard = brd)"
proof -
  let ?n = "length (filter completeRow brd)"
  let ?keep = "filter (\<lambda>row. \<not> completeRow row) brd"
  let ?nb = "replicate ?n emptyRow @ ?keep"
  have eq: "clearLines brd = Inr (?nb, int ?n)" using assms(1) by (rule clearLines_eq)
  have len: "length ?nb = BOARD_HEIGHT" using assms(1) eq by (rule length_clearLines)
  have width: "list_all (\<lambda>row. length row = BOARD_WIDTH) ?nb"
    using assms(2) by (auto simp: list_all_iff emptyRow_def)
  have same: "?n = 0 \<longrightarrow> ?nb = brd"
    by (auto simp: filter_id_conv filter_empty_conv)
  from eq len width same show ?thesis by blast
qed

theorem clearLines_spec_witness:
  "length bottom_row_full = BOARD_HEIGHT \<and>
   list_all (\<lambda>row. length row = BOARD_WIDTH) bottom_row_full \<and>
   clearLines bottom_row_full = Inr (createEmptyBoard, 1)"
proof -
  have h1: "length bottom_row_full = BOARD_HEIGHT" by code_simp
  have h2: "list_all (\<lambda>row. length row = BOARD_WIDTH) bottom_row_full" by code_simp
  have f1: "length (filter completeRow bottom_row_full) = 1" by code_simp
  have f2: "replicate 1 emptyRow @ filter (\<lambda>row. \<not> completeRow row) bottom_row_full = createEmptyBoard"
    by code_simp
  from clearLines_spec[OF h1 h2] f1 f2 have "clearLines bottom_row_full = Inr (createEmptyBoard, 1)"
    by auto
  with h1 h2 show ?thesis by blast
qed



section \<open>Hard drop\<close>

lemma hardDropLoop_terminates:
  assumes "shape t = Some sh" and "(r, c) \<in> set (setCells sh)"
  shows "\<exists>res. hardDropLoop brd t d = Some res"
proof (induction "nat (int BOARD_HEIGHT - (piece_y t + d + int r))" arbitrary: d rule: less_induct)
  case less
  show ?case
  proof (cases "canPlacePiece brd t (piece_x t) (piece_y t + d + 1)")
    case (Inl e)
    then show ?thesis by (subst hardDropLoop.simps) simp
  next
    case (Inr ok)
    show ?thesis
    proof (cases ok)
      case False
      with Inr show ?thesis by (subst hardDropLoop.simps) simp
    next
      case True
      with Inr have "piece_y t + d + 1 + int r < int BOARD_HEIGHT"
        using canPlacePiece_True_row[OF _ assms] by simp
      then have "nat (int BOARD_HEIGHT - (piece_y t + (d + 1) + int r))
                 < nat (int BOARD_HEIGHT - (piece_y t + d + int r))" by simp
      from less[OF this] obtain res where "hardDropLoop brd t (d + 1) = Some res" by blast
      with Inr True show ?thesis by (subst hardDropLoop.simps) simp
    qed
  qed
qed

lemma hardDropLoop_result:
  assumes "hardDropLoop brd t d = Some (Inr d')"
  shows "d \<le> d' \<and> canPlacePiece brd t (piece_x t) (piece_y t + d' + 1) = Inr False \<and>
     (\<forall>k. d < k \<and> k \<le> d' \<longrightarrow> canPlacePiece brd t (piece_x t) (piece_y t + k) = Inr True)"
proof -
  define P where "P = (\<lambda>brd t d (res::error + int). \<forall>d'. res = Inr d' \<longrightarrow>
     d \<le> d' \<and> canPlacePiece brd t (piece_x t) (piece_y t + d' + 1) = Inr False \<and>
     (\<forall>k. d < k \<and> k \<le> d' \<longrightarrow> canPlacePiece brd t (piece_x t) (piece_y t + k) = Inr True))"
  have "P brd t d (Inr d')"
  proof (rule hardDropLoop.raw_induct[where P = P, OF _ assms])
    fix loop :: "board \<Rightarrow> tetromino \<Rightarrow> int \<Rightarrow> (error + int) option"
    fix brd t d res
    assume IH: "\<And>brd t d res. loop brd t d = Some res \<Longrightarrow> P brd t d res"
    assume body: "(case canPlacePiece brd t (piece_x t) (piece_y t + d + 1) of
                     Inl e \<Rightarrow> Some (Inl e)
                   | Inr ok \<Rightarrow> if ok then loop brd t (d + 1) else Some (Inr d)) = Some res"
    show "P brd t d res"
    proof (cases "canPlacePiece brd t (piece_x t) (piece_y t + d + 1)")
      case (Inl e)
      with body show ?thesis by (auto simp: P_def)
    next
      case (Inr ok)
      show ?thesis
      proof (cases ok)
        case False
        with Inr body show ?thesis by (auto simp: P_def)
      next
        case True
        with Inr body have "loop brd t (d + 1) = Some res" by simp
        from IH[OF this] have ih: "P brd t (d + 1) res" .
        show ?thesis
          unfolding P_def
        proof (intro allI impI)
          fix d' assume res: "res = Inr d'"
          with ih have ih': "d + 1 \<le> d'"
            "canPlacePiece brd t (piece_x t) (piece_y t + d' + 1) = Inr False"
            "\<And>k. d + 1 < k \<Longrightarrow> k \<le> d' \<Longrightarrow> canPlacePiece brd t (piece_x t) (piece_y t + k) = Inr True"
            by (auto simp: P_def)
          have "canPlacePiece brd t (piece_x t) (piece_y t + k) = Inr True" if "d < k" "k \<le> d'" for k
          proof (cases "k = d + 1")
            case True
            with Inr \<open>ok\<close> show ?thesis by (simp add: add.assoc)
          next
            case False
            with that ih'(3) show ?thesis by auto
          qed
          with ih'(1,2) show "d \<le> d' \<and> canPlacePiece brd t (piece_x t) (piece_y t + d' + 1) = Inr False \<and>
            (\<forall>k. d < k \<and> k \<le> d' \<longrightarrow> canPlacePiece brd t (piece_x t) (piece_y t + k) = Inr True)"
            by auto
        qed
      qed
    qed
  qed
  then show ?thesis by (simp add: P_def)
qed

lemma hardDropLoop_no_throw:
  assumes "hardDropLoop brd t d = Some res"
    and "\<And>y. \<exists>b. canPlacePiece brd t (piece_x t) y = Inr b"
  shows "\<exists>d'. res = Inr d'"
proof -
  define P where "P = (\<lambda>brd' t' (d::int) (res::error + int).
     (\<forall>y. \<exists>b. canPlacePiece brd' t' (piece_x t') y = Inr b) \<longrightarrow> (\<exists>d'. res = Inr d'))"
  have "P brd t d res"
  proof (rule hardDropLoop.raw_induct[where P = P, OF _ assms(1)])
    fix loop :: "board \<Rightarrow> tetromino \<Rightarrow> int \<Rightarrow> (error + int) option"
    fix brd t d res
    assume IH: "\<And>brd t d res. loop brd t d = Some res \<Longrightarrow> P brd t d res"
    assume body: "(case canPlacePiece brd t (piece_x t) (piece_y t + d + 1) of
                     Inl e \<Rightarrow> Some (Inl e)
                   | Inr ok \<Rightarrow> if ok then loop brd t (d + 1) else Some (Inr d)) = Some res"
    show "P brd t d res"
      unfolding P_def
    proof
      assume nt: "\<forall>y. \<exists>b. canPlacePiece brd t (piece_x t) y = Inr b"
      then obtain b where b: "canPlacePiece brd t (piece_x t) (piece_y t + d + 1) = Inr b"
        by blast
      show "\<exists>d'. res = Inr d'"
      proof (cases b)
        case True
        with b body have "loop brd t (d + 1) = Some res" by simp
        from IH[OF this] nt show ?thesis by (simp add: P_def)
      next
        case False
        with b body show ?thesis by auto
      qed
    qed
  qed
  with assms(2) show ?thesis by (simp add: P_def)
qed

lemma hardDropLoop_diverges:
  assumes "\<And>y. canPlacePiece brd t (piece_x t) y = Inr True"
  shows "hardDropLoop brd t d = None"
proof (cases "hardDropLoop brd t d")
  case None
  then show ?thesis .
next
  case (Some res)
  define P where "P = (\<lambda>brd' t' (d::int) (res::error + int).
     \<not> (\<forall>y. canPlacePiece brd' t' (piece_x t') y = Inr True))"
  have "P brd t d res"
  proof (rule hardDropLoop.raw_induct[where P = P, OF _ Some])
    fix loop :: "board \<Rightarrow> tetromino \<Rightarrow> int \<Rightarrow> (error + int) option"
    fix brd t d res
    assume IH: "\<And>brd t d res. loop brd t d = Some res \<Longrightarrow> P brd t d res"
    assume body: "(case canPlacePiece brd t (piece_x t) (piece_y t + d + 1) of
                     Inl e \<Rightarrow> Some (Inl e)
                   | Inr ok \<Rightarrow> if ok then loop brd t (d + 1) else Some (Inr d)) = Some res"
    show "P brd t d res"
    proof (cases "canPlacePiece brd t (piece_x t) (piece_y t + d + 1) = Inr True")
      case True
      with body have "loop brd t (d + 1) = Some res" by simp
      from IH[OF this] show ?thesis by (simp add: P_def)
    next
      case False
      then show ?thesis unfolding P_def by blast
    qed
  qed
  with assms show ?thesis by (simp add: P_def)
qed

text \<open>Where the piece is valid and the board has its rows, the loop returns a distance.\<close>

lemma getHardDropDistance_returns:
  assumes "BOARD_HEIGHT \<le> length brd" and "shape t = Some sh" and "setCells sh \<noteq> []"
  shows "\<exists>d. getHardDropDistance brd t = Some (Inr d)"
proof -
  from assms(3) obtain r c where rc: "(r, c) \<in> set (setCells sh)"
    by (cases "setCells sh") auto
  from hardDropLoop_terminates[OF assms(2) rc] obtain res where
    res: "hardDropLoop brd t 0 = Some res" by blast
  have "\<exists>b. canPlacePiece brd t (piece_x t) y = Inr b" for y
    using assms(1,2) by (rule canPlacePiece_never_throws)
  from hardDropLoop_no_throw[OF res this] res show ?thesis
    by (auto simp: getHardDropDistance_def)
qed

text \<open>
  C8. For a piece that can be placed where it is, a distance \<open>d\<close> that
  \<^verbatim>\<open>getHardDropDistance\<close> returns is not negative, the piece can be placed \<open>k\<close> rows
  lower for every \<open>k\<close> of \<open>0 .. d\<close>, and it cannot be placed \<open>d + 1\<close> rows lower. The
  function does return a distance when the board has its \<^verbatim>\<open>BOARD_HEIGHT\<close> rows and the
  shape has a set cell.
\<close>

theorem getHardDropDistance_spec:
  assumes "canPlacePiece brd t (piece_x t) (piece_y t) = Inr True"
  shows "(\<forall>d. getHardDropDistance brd t = Some (Inr d) \<longrightarrow>
            0 \<le> d \<and>
            canPlacePiece brd t (piece_x t) (piece_y t + d) = Inr True \<and>
            canPlacePiece brd t (piece_x t) (piece_y t + d + 1) = Inr False \<and>
            (\<forall>k. 0 \<le> k \<and> k \<le> d \<longrightarrow> canPlacePiece brd t (piece_x t) (piece_y t + k) = Inr True)) \<and>
         (BOARD_HEIGHT \<le> length brd \<and> (\<exists>sh. shape t = Some sh \<and> setCells sh \<noteq> []) \<longrightarrow>
            (\<exists>d. getHardDropDistance brd t = Some (Inr d)))"
proof (intro conjI allI impI)
  fix d assume d: "getHardDropDistance brd t = Some (Inr d)"
  then have loop: "hardDropLoop brd t 0 = Some (Inr d)" by (simp add: getHardDropDistance_def)
  note r = hardDropLoop_result[OF loop]
  from r show "0 \<le> d" by simp
  from r show "canPlacePiece brd t (piece_x t) (piece_y t + d + 1) = Inr False" by simp
  have all: "canPlacePiece brd t (piece_x t) (piece_y t + k) = Inr True" if "0 \<le> k" "k \<le> d" for k
  proof (cases "k = 0")
    case True
    with assms show ?thesis by simp
  next
    case False
    with that r show ?thesis by auto
  qed
  from all[of d] r show "canPlacePiece brd t (piece_x t) (piece_y t + d) = Inr True" by simp
  fix k assume "0 \<le> k \<and> k \<le> d"
  with all show "canPlacePiece brd t (piece_x t) (piece_y t + k) = Inr True" by simp
next
  assume "BOARD_HEIGHT \<le> length brd \<and> (\<exists>sh. shape t = Some sh \<and> setCells sh \<noteq> [])"
  then show "\<exists>d. getHardDropDistance brd t = Some (Inr d)"
    using getHardDropDistance_returns by blast
qed

theorem getHardDropDistance_spec_witness:
  "canPlacePiece createEmptyBoard T_at_spawn (piece_x T_at_spawn) (piece_y T_at_spawn) = Inr True \<and>
   getHardDropDistance createEmptyBoard T_at_spawn = Some (Inr 18) \<and>
   canPlacePiece createEmptyBoard T_at_spawn (piece_x T_at_spawn) (piece_y T_at_spawn + 18) = Inr True \<and>
   canPlacePiece createEmptyBoard T_at_spawn (piece_x T_at_spawn) (piece_y T_at_spawn + 18 + 1) = Inr False"
proof -
  have h: "canPlacePiece createEmptyBoard T_at_spawn (piece_x T_at_spawn) (piece_y T_at_spawn) = Inr True"
    by code_simp
  have v: "getHardDropDistance createEmptyBoard T_at_spawn = Some (Inr 18)"
    by code_simp
  from getHardDropDistance_spec[OF h] v h show ?thesis by blast
qed

text \<open>
  C10. For a piece whose shape has a set cell, the loop of \<^verbatim>\<open>getHardDropDistance\<close>
  ends, on every board. For a shape with no set cell \<^verbatim>\<open>canPlacePiece\<close> is true at
  every position and the loop never ends.
\<close>

theorem getHardDropDistance_terminates_iff:
  assumes "shape t = Some sh"
  shows "(setCells sh \<noteq> [] \<longrightarrow> (\<exists>res. getHardDropDistance brd t = Some res)) \<and>
         (setCells sh = [] \<longrightarrow>
            (\<forall>x y. canPlacePiece brd t x y = Inr True) \<and> getHardDropDistance brd t = None)"
proof (intro conjI impI)
  assume "setCells sh \<noteq> []"
  then obtain r c where "(r, c) \<in> set (setCells sh)" by (cases "setCells sh") auto
  from hardDropLoop_terminates[OF assms this] show "\<exists>res. getHardDropDistance brd t = Some res"
    by (simp add: getHardDropDistance_def)
next
  assume e: "setCells sh = []"
  with assms have all: "canPlacePiece brd t x y = Inr True" for x y
    by (simp add: canPlacePiece_def)
  then show "\<forall>x y. canPlacePiece brd t x y = Inr True" by blast
  from all show "getHardDropDistance brd t = None"
    unfolding getHardDropDistance_def by (intro hardDropLoop_diverges) 
qed

theorem getHardDropDistance_terminates_iff_witness:
  "shape T_at_spawn = Some (TETROMINO_SHAPES Type_T ! 0) \<and>
   (\<exists>res. getHardDropDistance createEmptyBoard T_at_spawn = Some res) \<and>
   shape blank_piece = Some (replicate 4 (replicate 4 0)) \<and>
   getHardDropDistance createEmptyBoard blank_piece = None"
proof -
  have h1: "shape T_at_spawn = Some (TETROMINO_SHAPES Type_T ! 0)" by (simp add: T_at_spawn_def)
  have c1: "setCells (TETROMINO_SHAPES Type_T ! 0) \<noteq> []" by code_simp
  have h2: "shape blank_piece = Some (replicate 4 (replicate 4 0))" by (simp add: blank_piece_def)
  have c2: "setCells (replicate 4 (replicate 4 0)) = []" by code_simp
  from getHardDropDistance_terminates_iff[OF h1, of createEmptyBoard] c1
       getHardDropDistance_terminates_iff[OF h2, of createEmptyBoard] c2 h1 h2
  show ?thesis by blast
qed



section \<open>The bag\<close>

lemma length_shuffleLoop: "length (shuffleLoop rnd k n bag) = length bag"
  by (induction n arbitrary: k bag) (simp_all add: Let_def)

lemma mset_shuffleLoop: "n < length bag \<Longrightarrow> mset (shuffleLoop rnd k n bag) = mset bag"
proof (induction n arbitrary: k bag)
  case 0
  then show ?case by simp
next
  case (Suc n)
  have "rnd k mod (Suc n + 1) < Suc n + 1" by simp
  with Suc.prems have j: "rnd k mod (Suc n + 1) < length bag" by linarith
  show ?case using Suc j by (simp add: Let_def mset_swap)
qed

lemma length_TETROMINO_TYPES: "length TETROMINO_TYPES = 7"
  by (simp add: TETROMINO_TYPES_def)

lemma length_createTetrominoBag: "length (createTetrominoBag rnd) = 7"
  by (simp only: createTetrominoBag_def length_shuffleLoop length_TETROMINO_TYPES)

text \<open>Every bag holds each of the seven types exactly once.\<close>

lemma mset_createTetrominoBag: "mset (createTetrominoBag rnd) = mset TETROMINO_TYPES"
proof -
  have "length TETROMINO_TYPES - 1 < length TETROMINO_TYPES"
    by (simp add: length_TETROMINO_TYPES)
  then show ?thesis unfolding createTetrominoBag_def by (rule mset_shuffleLoop)
qed

lemma distinct_createTetrominoBag: "distinct (createTetrominoBag rnd)"
proof -
  have "distinct TETROMINO_TYPES" by (simp add: TETROMINO_TYPES_def)
  then show ?thesis using mset_createTetrominoBag by (metis mset_eq_imp_distinct_iff)
qed

section \<open>Valid pieces\<close>

lemma setCells_catalogue: "k < 4 \<Longrightarrow> setCells (TETROMINO_SHAPES ty ! k) \<noteq> []"
proof -
  assume "k < 4"
  then have k: "k = 0 \<or> k = 1 \<or> k = 2 \<or> k = 3" by arith
  have "setCells (TETROMINO_SHAPES ty ! 0) \<noteq> [] \<and> setCells (TETROMINO_SHAPES ty ! 1) \<noteq> [] \<and>
        setCells (TETROMINO_SHAPES ty ! 2) \<noteq> [] \<and> setCells (TETROMINO_SHAPES ty ! 3) \<noteq> []"
    by (cases ty; hypsubst_thin; code_simp)
  with k show ?thesis by auto
qed

lemma createTetromino_default_valid:
  assumes "i < length bag"
  shows "\<exists>p. createTetromino_default (js_index bag (int i)) = Inr p \<and> valid_piece p \<and>
             piece_type p = bag ! i"
proof -
  have "js_index bag (int i) = Some (bag ! i)" using assms by (simp add: js_index_def)
  then show ?thesis
    by (simp add: createTetromino_default_def createTetromino_nonneg_rotation valid_piece_def
        setCells_catalogue)
qed

lemma rotateTetromino_valid:
  assumes "valid_piece p"
  shows "valid_piece (rotateTetromino p)"
proof -
  from assms have r: "0 \<le> rotation p" "rotation p < 4" by (simp_all add: valid_piece_def)
  then have m: "js_rem (rotation p + 1) 4 = (rotation p + 1) mod 4" by (simp add: js_rem_nonneg)
  have b: "0 \<le> (rotation p + 1) mod 4" "(rotation p + 1) mod 4 < 4" by simp_all
  then have "nat ((rotation p + 1) mod 4) < 4" by linarith
  then have "setCells (TETROMINO_SHAPES (piece_type p) ! nat ((rotation p + 1) mod 4)) \<noteq> []"
    by (rule setCells_catalogue)
  with b show ?thesis
    by (simp add: rotateTetromino_def Let_def m valid_piece_def js_index_def length_TETROMINO_SHAPES)
qed

section \<open>Placing and locking\<close>

lemma placeCells_returns:
  assumes "length brd = BOARD_HEIGHT"
  shows "\<exists>b. placeCells brd v ps = Inr b \<and> length b = BOARD_HEIGHT"
  using assms
proof (induction ps arbitrary: brd)
  case Nil
  then show ?case by simp
next
  case (Cons a ps)
  obtain x y where a: "a = (x, y)" by (cases a)
  show ?case using Cons a by (auto simp: Cons.IH)
qed

lemma placePiece_returns:
  assumes "length brd = BOARD_HEIGHT" and "shape t = Some sh"
  shows "\<exists>b. placePiece brd t = Inr b \<and> length b = BOARD_HEIGHT"
  using assms by (simp add: placePiece_def getTetrominoPositions_def placeCells_returns)

lemma clearLines_returns:
  assumes "length brd = BOARD_HEIGHT"
  shows "\<exists>b n. clearLines brd = Inr (b, n) \<and> length b = BOARD_HEIGHT"
  using clearLines_eq[OF assms] length_clearLines[OF assms] by blast

lemma lockIn_returns:
  assumes "length (board s) = BOARD_HEIGHT" and "shape t = Some sh"
  shows "\<exists>s'. lockIn s t pts = returns s' \<and> length (board s') = BOARD_HEIGHT \<and>
           currentPiece s' = None \<and> nextPiece s' = nextPiece s \<and> holdPiece s' = holdPiece s \<and>
           isGameOver s' = isGameOver s"
proof -
  from placePiece_returns[OF assms] obtain b where
    b: "placePiece (board s) t = Inr b" "length b = BOARD_HEIGHT" by blast
  from clearLines_returns[OF b(2)] obtain b' n where
    c: "clearLines b = Inr (b', n)" "length b' = BOARD_HEIGHT" by blast
  from b c show ?thesis by (simp add: lockIn_def Let_def)
qed

lemma lockIn_isGameOver:
  "lockIn s t pts = returns s' \<Longrightarrow> isGameOver s' = isGameOver s"
  by (auto simp: lockIn_def Let_def split: sum.splits prod.splits)


section \<open>The reducer on valid states\<close>

lemma valid_createInitialGameState: "valid_state (createInitialGameState e name)"
  by (simp add: valid_state_def createInitialGameState_def Let_def createEmptyBoard_def)

lemma valid_piece_moved:
  "valid_piece p \<Longrightarrow> valid_piece (p\<lparr>piece_x := x', piece_y := y'\<rparr>)"
  by (simp add: valid_piece_def)

lemma valid_piece_shape: "valid_piece p \<Longrightarrow> \<exists>sh. shape p = Some sh \<and> setCells sh \<noteq> []"
  by (auto simp: valid_piece_def split: option.splits)

lemma canPlacePiece_valid:
  assumes "length brd = BOARD_HEIGHT" and "valid_piece p"
  shows "\<exists>b. canPlacePiece brd p x y = Inr b"
proof -
  from valid_piece_shape[OF assms(2)] obtain sh where "shape p = Some sh" by blast
  with assms(1) show ?thesis by (intro canPlacePiece_never_throws[where sh = sh]) simp_all
qed

lemma reducer_START_GAME:
  assumes "valid_state s"
  shows "\<exists>s'. gameStateReducer e s START_GAME = returns s' \<and> valid_state s'"
proof -
  let ?bag = "createTetrominoBag (rand e)"
  have "0 < length ?bag" "1 < length ?bag" by (simp_all add: length_createTetrominoBag)
  from createTetromino_default_valid[OF this(1)] createTetromino_default_valid[OF this(2)]
  obtain p q where
    p: "createTetromino_default (js_index ?bag 0) = Inr p" "valid_piece p" and
    q: "createTetromino_default (js_index ?bag 1) = Inr q" "valid_piece q"
    by auto
  with assms show ?thesis by (simp add: Let_def valid_state_def)
qed

lemma reducer_MOVE_PIECE:
  assumes "valid_state s"
  shows "\<exists>s'. gameStateReducer e s (MOVE_PIECE dx dy) = returns s' \<and> valid_state s'"
proof (cases "currentPiece s")
  case None
  with assms show ?thesis by simp
next
  case (Some cur)
  with assms have v: "valid_piece cur" "length (board s) = BOARD_HEIGHT"
    by (simp_all add: valid_state_def)
  from canPlacePiece_valid[OF v(2,1)] obtain b where
    "canPlacePiece (board s) cur (piece_x cur + dx) (piece_y cur + dy) = Inr b" by blast
  with Some assms v show ?thesis
    by (simp add: Let_def valid_state_def valid_piece_moved)
qed

lemma reducer_ROTATE_PIECE:
  assumes "valid_state s"
  shows "\<exists>s'. gameStateReducer e s ROTATE_PIECE = returns s' \<and> valid_state s'"
proof (cases "currentPiece s")
  case None
  with assms show ?thesis by simp
next
  case (Some cur)
  with assms have v: "valid_piece cur" "length (board s) = BOARD_HEIGHT"
    by (simp_all add: valid_state_def)
  note r = rotateTetromino_valid[OF v(1)]
  from canPlacePiece_valid[OF v(2) r] obtain b where
    "canPlacePiece_default (board s) (rotateTetromino cur) = Inr b"
    unfolding canPlacePiece_default_def by blast
  with Some assms r show ?thesis
    by (simp add: Let_def valid_state_def)
qed

lemma lockIn_valid:
  assumes "valid_state s" and "valid_piece t"
  shows "\<exists>s'. lockIn s t pts = returns s' \<and> valid_state s'"
proof -
  from assms have len: "length (board s) = BOARD_HEIGHT" by (simp add: valid_state_def)
  from valid_piece_shape[OF assms(2)] obtain sh where sh: "shape t = Some sh" by blast
  from lockIn_returns[OF len sh, of pts] assms(1) show ?thesis
    by (auto simp: valid_state_def)
qed

lemma reducer_SOFT_DROP:
  assumes "valid_state s"
  shows "\<exists>s'. gameStateReducer e s SOFT_DROP = returns s' \<and> valid_state s'"
proof (cases "currentPiece s")
  case None
  with assms show ?thesis by simp
next
  case (Some cur)
  with assms have v: "valid_piece cur" "length (board s) = BOARD_HEIGHT"
    by (simp_all add: valid_state_def)
  from canPlacePiece_valid[OF v(2,1)] obtain b where
    b: "canPlacePiece (board s) cur (piece_x cur) (piece_y cur + 1) = Inr b" by blast
  from v(1) have m: "valid_piece (cur\<lparr>piece_y := piece_y cur + 1\<rparr>)" by (simp add: valid_piece_def)
  from lockIn_valid[OF assms v(1), of 0] obtain s' where "lockIn s cur 0 = returns s'" "valid_state s'"
    by blast
  with Some assms b m show ?thesis
    by (simp add: Let_def valid_state_def)
qed

lemma reducer_HARD_DROP:
  assumes "valid_state s"
  shows "\<exists>s'. gameStateReducer e s HARD_DROP = returns s' \<and> valid_state s'"
proof (cases "currentPiece s")
  case None
  with assms show ?thesis by simp
next
  case (Some cur)
  with assms have v: "valid_piece cur" "length (board s) = BOARD_HEIGHT"
    by (simp_all add: valid_state_def)
  from valid_piece_shape[OF v(1)] obtain sh where sh: "shape cur = Some sh" "setCells sh \<noteq> []" by blast
  from getHardDropDistance_returns[OF _ sh, of "board s"] v(2) obtain d where
    d: "getHardDropDistance (board s) cur = Some (Inr d)" by auto
  from v(1) have "valid_piece (cur\<lparr>piece_y := piece_y cur + d\<rparr>)" by (simp add: valid_piece_def)
  from lockIn_valid[OF assms this, of "calculateHardDropScore d"] obtain s' where
    "lockIn s (cur\<lparr>piece_y := piece_y cur + d\<rparr>) (calculateHardDropScore d) = returns s'" "valid_state s'"
    by blast
  with Some assms d show ?thesis
    by (cases "isPaused s \<or> isGameOver s") (simp_all add: Let_def)
qed

lemma reducer_PLACE_PIECE:
  assumes "valid_state s"
  shows "\<exists>s'. gameStateReducer e s PLACE_PIECE = returns s' \<and> valid_state s'"
proof (cases "currentPiece s")
  case None
  with assms show ?thesis by simp
next
  case (Some cur)
  with assms have "valid_piece cur" by (simp add: valid_state_def)
  from lockIn_valid[OF assms this, of 0] Some show ?thesis by simp
qed

lemma reducer_SPAWN_PIECE:
  assumes "valid_state s"
  shows "\<exists>s'. gameStateReducer e s SPAWN_PIECE = returns s' \<and> valid_state s'"
proof (cases "nextPiece s")
  case None
  with assms show ?thesis by simp
next
  case (Some nxt)
  with assms have v: "valid_piece nxt" "length (board s) = BOARD_HEIGHT"
    by (simp_all add: valid_state_def)
  let ?fresh = "bagIndex s \<ge> length (tetrominoBag s)"
  let ?bag = "if ?fresh then createTetrominoBag (rand e) else tetrominoBag s"
  let ?idx = "if ?fresh then 0 else bagIndex s"
  have "?idx < length ?bag" by (simp add: length_createTetrominoBag)
  from createTetromino_default_valid[OF this] obtain q where
    q: "createTetromino_default (js_index ?bag (int ?idx)) = Inr q" "valid_piece q" by blast
  from canPlacePiece_valid[OF v(2,1)] obtain b where
    "canPlacePiece (board s) nxt (piece_x nxt) (piece_y nxt) = Inr b" by blast
  then have g: "isGameOver_check (board s) nxt = Inr (\<not> b)" by (simp add: isGameOver_check_def)
  show ?thesis
  proof (cases "isGameOver s")
    case True
    with Some assms show ?thesis by simp
  next
    case False
    with Some assms q g v show ?thesis
      by (cases b) (simp_all add: Let_def valid_state_def)
  qed
qed

lemma reducer_HOLD_PIECE:
  assumes "valid_state s"
  shows "\<exists>s'. gameStateReducer e s HOLD_PIECE = returns s' \<and> valid_state s'"
proof (cases "currentPiece s")
  case None
  with assms show ?thesis by simp
next
  case (Some cur)
  with assms have v: "valid_piece cur" by (simp add: valid_state_def)
  then have h: "valid_piece (cur\<lparr>piece_x := 3, piece_y := - 1, rotation := 0\<rparr>)"
    by (simp add: valid_piece_def)
  show ?thesis
  proof (cases "holdPiece s")
    case None
    with Some assms h show ?thesis by (simp add: Let_def valid_state_def)
  next
    case (Some held)
    with assms have "valid_piece held" by (simp add: valid_state_def)
    then have "valid_piece (held\<lparr>piece_x := 3, piece_y := - 1\<rparr>)" by (rule valid_piece_moved)
    with Some \<open>currentPiece s = Some cur\<close> assms h show ?thesis
      by (simp add: Let_def valid_state_def)
  qed
qed

lemma gameStateReducer_valid:
  assumes "valid_state s"
  shows "\<exists>s'. gameStateReducer e s a = returns s' \<and>
               ((\<forall>props. a \<noteq> LOAD_STATE props) \<longrightarrow> valid_state s')"
proof (cases a)
  case (INITIALIZE name)
  then show ?thesis by (simp add: valid_createInitialGameState)
next
  case START_GAME
  with reducer_START_GAME[OF assms] show ?thesis by blast
next
  case (MOVE_PIECE dx dy)
  with reducer_MOVE_PIECE[OF assms] show ?thesis by blast
next
  case ROTATE_PIECE
  with reducer_ROTATE_PIECE[OF assms] show ?thesis by blast
next
  case SOFT_DROP
  with reducer_SOFT_DROP[OF assms] show ?thesis by blast
next
  case HARD_DROP
  with reducer_HARD_DROP[OF assms] show ?thesis by blast
next
  case PLACE_PIECE
  with reducer_PLACE_PIECE[OF assms] show ?thesis by blast
next
  case HOLD_PIECE
  with reducer_HOLD_PIECE[OF assms] show ?thesis by blast
next
  case PAUSE_GAME
  with assms show ?thesis by (simp add: valid_state_def)
next
  case RESUME_GAME
  with assms show ?thesis by (simp add: valid_state_def)
next
  case RESET_GAME
  then show ?thesis by (simp add: valid_createInitialGameState Let_def)
next
  case (LOAD_STATE props)
  then show ?thesis by simp
next
  case SPAWN_PIECE
  with reducer_SPAWN_PIECE[OF assms] show ?thesis by blast
next
  case DROP_PIECE
  with assms show ?thesis by simp
next
  case GAME_OVER
  with assms show ?thesis by simp
next
  case UPDATE_SCORE
  with assms show ?thesis by simp
next
  case (OTHER tag)
  with assms show ?thesis by simp
qed



section \<open>Game over\<close>

lemma is_LOAD_STATE_iff: "is_LOAD_STATE a \<longleftrightarrow> (\<exists>props. a = LOAD_STATE props)"
  by (cases a) simp_all

lemma isGameOver_createInitialGameState: "\<not> isGameOver (createInitialGameState e name)"
  by (simp add: createInitialGameState_def Let_def)

lemma reducer_keeps_isGameOver:
  assumes "gameStateReducer e s a = returns s'"
    and "a = MOVE_PIECE dx dy \<or> a = ROTATE_PIECE \<or> a = SOFT_DROP \<or> a = HARD_DROP \<or>
         a = PLACE_PIECE \<or> a = HOLD_PIECE \<or> a = PAUSE_GAME \<or> a = RESUME_GAME \<or>
         a = DROP_PIECE \<or> a = GAME_OVER \<or> a = UPDATE_SCORE \<or> a = OTHER tag"
  shows "isGameOver s' = isGameOver s"
proof -
  consider "a = MOVE_PIECE dx dy" | "a = ROTATE_PIECE" | "a = SOFT_DROP" | "a = HARD_DROP"
    | "a = PLACE_PIECE" | "a = HOLD_PIECE"
    | "a = PAUSE_GAME \<or> a = RESUME_GAME \<or> a = DROP_PIECE \<or> a = GAME_OVER \<or> a = UPDATE_SCORE \<or> a = OTHER tag"
    using assms(2) by blast
  then show ?thesis
  proof cases
    case 1
    with assms(1) show ?thesis
      by (auto simp: Let_def split: option.splits if_splits sum.splits)
  next
    case 2
    with assms(1) show ?thesis
      by (auto simp: Let_def split: option.splits if_splits sum.splits)
  next
    case 3
    with assms(1) show ?thesis
      by (auto simp: Let_def lockIn_isGameOver split: option.splits if_splits sum.splits)
  next
    case 4
    with assms(1) show ?thesis
      by (auto simp: Let_def lockIn_isGameOver split: option.splits if_splits sum.splits)
  next
    case 5
    with assms(1) show ?thesis
      by (auto simp: lockIn_isGameOver split: option.splits)
  next
    case 6
    with assms(1) show ?thesis
      by (auto simp: Let_def split: option.splits if_splits)
  next
    case 7
    with assms(1) show ?thesis by (auto split: if_splits)
  qed
qed

lemma reducer_SPAWN_PIECE_isGameOver:
  assumes "gameStateReducer e s SPAWN_PIECE = returns s'" and "\<not> isGameOver s"
    and "nextPiece s = Some p"
  shows "isGameOver s' = (canPlacePiece (board s) p (piece_x p) (piece_y p) = Inr False)"
  using assms
  by (auto simp: Let_def isGameOver_check_def split: sum.splits if_splits)

lemma reducer_frozen_when_over:
  assumes "isPaused s \<or> isGameOver s \<or> currentPiece s = None"
    and "a = MOVE_PIECE dx dy \<or> a = ROTATE_PIECE \<or> a = SOFT_DROP \<or> a = HARD_DROP \<or> a = HOLD_PIECE"
  shows "gameStateReducer e s a = returns s"
  using assms by (auto split: option.splits)

text \<open>Only a failed spawn sets the flag, whatever the state.\<close>

lemma isGameOver_only_by_SPAWN_PIECE:
  assumes n: "\<not> isGameOver s" and l: "\<not> is_LOAD_STATE a"
    and r: "gameStateReducer e s a = returns s'" and o: "isGameOver s'"
  shows "a = SPAWN_PIECE \<and>
         (\<exists>p. nextPiece s = Some p \<and>
              canPlacePiece (board s) p (piece_x p) (piece_y p) = Inr False)"
proof (cases a)
  case (INITIALIZE name)
  with r o isGameOver_createInitialGameState show ?thesis by auto
next
  case START_GAME
  with r o show ?thesis by (auto simp: Let_def split: sum.splits)
next
  case RESET_GAME
  with r o isGameOver_createInitialGameState show ?thesis by (auto simp: Let_def)
next
  case (LOAD_STATE props)
  with l show ?thesis by simp
next
  case SPAWN_PIECE
  show ?thesis
  proof (cases "nextPiece s")
    case None
    with SPAWN_PIECE r n o show ?thesis by auto
  next
    case (Some p)
    from reducer_SPAWN_PIECE_isGameOver[OF r[unfolded SPAWN_PIECE] n Some] o Some SPAWN_PIECE
    show ?thesis by blast
  qed
next
  case (MOVE_PIECE dx dy)
  with reducer_keeps_isGameOver[OF r, of dx dy] n o show ?thesis by blast
next
  case ROTATE_PIECE
  with reducer_keeps_isGameOver[OF r] n o show ?thesis by blast
next
  case DROP_PIECE
  with reducer_keeps_isGameOver[OF r] n o show ?thesis by blast
next
  case SOFT_DROP
  with reducer_keeps_isGameOver[OF r] n o show ?thesis by blast
next
  case HARD_DROP
  with reducer_keeps_isGameOver[OF r] n o show ?thesis by blast
next
  case PLACE_PIECE
  with reducer_keeps_isGameOver[OF r] n o show ?thesis by blast
next
  case HOLD_PIECE
  with reducer_keeps_isGameOver[OF r] n o show ?thesis by blast
next
  case PAUSE_GAME
  with reducer_keeps_isGameOver[OF r] n o show ?thesis by blast
next
  case RESUME_GAME
  with reducer_keeps_isGameOver[OF r] n o show ?thesis by blast
next
  case GAME_OVER
  with reducer_keeps_isGameOver[OF r] n o show ?thesis by blast
next
  case UPDATE_SCORE
  with reducer_keeps_isGameOver[OF r] n o show ?thesis by blast
next
  case (OTHER tag)
  with reducer_keeps_isGameOver[OF r, of _ _ tag] n o show ?thesis by blast
qed

text \<open>
  In the states that the commands lead to, the next piece is where \<^verbatim>\<open>createTetromino\<close>
  made it, at the spawn anchor: only \<^verbatim>\<open>START_GAME\<close> and \<^verbatim>\<open>SPAWN_PIECE\<close> write it.
\<close>

lemma createTetromino_default_at_spawn:
  "createTetromino_default ty = Inr p \<Longrightarrow> piece_x p = 3 \<and> piece_y p = - 1"
  by (auto simp: createTetromino_default_def createTetromino_def split: option.splits if_splits)

lemma lockIn_nextPiece:
  "lockIn s t pts = returns s' \<Longrightarrow> nextPiece s' = nextPiece s"
  by (auto simp: lockIn_def Let_def split: sum.splits prod.splits)

lemma next_at_spawn_createInitialGameState: "next_at_spawn (createInitialGameState e name)"
  by (simp add: next_at_spawn_def createInitialGameState_def Let_def)

lemma reducer_next_at_spawn:
  assumes r: "gameStateReducer e s a = returns s'" and l: "\<not> is_LOAD_STATE a"
    and i: "next_at_spawn s"
  shows "next_at_spawn s'"
proof (cases a)
  case (INITIALIZE name)
  with r show ?thesis by (auto simp: next_at_spawn_createInitialGameState)
next
  case START_GAME
  with r show ?thesis
    by (auto simp: Let_def next_at_spawn_def dest: createTetromino_default_at_spawn
        split: sum.splits)
next
  case (MOVE_PIECE dx dy)
  with r i show ?thesis
    by (auto simp: Let_def next_at_spawn_def split: option.splits if_splits sum.splits)
next
  case ROTATE_PIECE
  with r i show ?thesis
    by (auto simp: Let_def next_at_spawn_def split: option.splits if_splits sum.splits)
next
  case DROP_PIECE
  with r i show ?thesis by auto
next
  case SOFT_DROP
  with r i show ?thesis
    by (auto simp: Let_def next_at_spawn_def dest: lockIn_nextPiece
        split: option.splits if_splits sum.splits)
next
  case HARD_DROP
  with r i show ?thesis
    by (auto simp: Let_def next_at_spawn_def dest: lockIn_nextPiece
        split: option.splits if_splits sum.splits)
next
  case PLACE_PIECE
  with r i show ?thesis
    by (auto simp: next_at_spawn_def dest: lockIn_nextPiece split: option.splits)
next
  case HOLD_PIECE
  with r i show ?thesis
    by (auto simp: Let_def next_at_spawn_def split: option.splits if_splits)
next
  case PAUSE_GAME
  with r i show ?thesis by (auto simp: next_at_spawn_def split: if_splits)
next
  case RESUME_GAME
  with r i show ?thesis by (auto simp: next_at_spawn_def split: if_splits)
next
  case RESET_GAME
  with r show ?thesis by (auto simp: Let_def next_at_spawn_createInitialGameState)
next
  case GAME_OVER
  with r i show ?thesis by auto
next
  case UPDATE_SCORE
  with r i show ?thesis by auto
next
  case (LOAD_STATE props)
  with l show ?thesis by simp
next
  case SPAWN_PIECE
  with r i show ?thesis
    by (auto simp: Let_def next_at_spawn_def dest: createTetromino_default_at_spawn
        split: option.splits if_splits sum.splits)
next
  case (OTHER tag)
  with r i show ?thesis by auto
qed

lemma dispatchAll_next_at_spawn:
  assumes "engine_actions acts" and "next_at_spawn s" and "dispatchAll s acts = returns s'"
  shows "next_at_spawn s'"
  using assms
proof (induction acts arbitrary: s)
  case Nil
  then show ?case by simp
next
  case (Cons ea acts)
  obtain e a where ea: "ea = (e, a)" by (cases ea)
  with Cons.prems(1) have l: "\<not> is_LOAD_STATE a" and rest: "engine_actions acts"
    by (simp_all add: engine_actions_def)
  from Cons.prems(3) ea obtain s1 where
    s1: "gameStateReducer e s a = returns s1" "dispatchAll s1 acts = returns s'"
    by (auto split: option.splits sum.splits)
  from reducer_next_at_spawn[OF s1(1) l Cons.prems(2)] have "next_at_spawn s1" .
  from Cons.IH[OF rest this s1(2)] show ?case .
qed

text \<open>
  C4. \<open>isGameOver\<close> becomes true only when \<^verbatim>\<open>SPAWN_PIECE\<close> finds that the piece it
  promotes, the former next piece, cannot be placed where it is; in every state that
  commands lead to from the initial one, that is the spawn position \<open>(3, -1)\<close>; and in that
  case \<^verbatim>\<open>SPAWN_PIECE\<close> does set it. Once the flag is true, \<^verbatim>\<open>MOVE_PIECE\<close>,
  \<^verbatim>\<open>ROTATE_PIECE\<close>, \<^verbatim>\<open>SOFT_DROP\<close> and \<^verbatim>\<open>HARD_DROP\<close> return the state as it is, every
  field of it. (The commands are the actions of the game; \<^verbatim>\<open>LOAD_STATE\<close>, which copies
  a stored snapshot into the state, is not one of them.)
\<close>

theorem isGameOver_spec:
  "(\<not> isGameOver s \<and> \<not> is_LOAD_STATE a \<and> gameStateReducer e s a = returns s' \<and> isGameOver s' \<longrightarrow>
      a = SPAWN_PIECE \<and>
      (\<exists>p. nextPiece s = Some p \<and>
           canPlacePiece (board s) p (piece_x p) (piece_y p) = Inr False)) \<and>
   (engine_actions acts \<and> dispatchAll (createInitialGameState e0 name) acts = returns s \<and>
    \<not> isGameOver s \<and> \<not> is_LOAD_STATE a \<and> gameStateReducer e s a = returns s' \<and> isGameOver s' \<longrightarrow>
      a = SPAWN_PIECE \<and>
      (\<exists>p. nextPiece s = Some p \<and> piece_x p = 3 \<and> piece_y p = - 1 \<and>
           canPlacePiece (board s) p 3 (- 1) = Inr False)) \<and>
   (\<not> isGameOver s \<and> nextPiece s = Some q \<and> gameStateReducer e s SPAWN_PIECE = returns s' \<longrightarrow>
      isGameOver s' = (canPlacePiece (board s) q (piece_x q) (piece_y q) = Inr False)) \<and>
   (isGameOver s \<and> (a = MOVE_PIECE dx dy \<or> a = ROTATE_PIECE \<or> a = SOFT_DROP \<or> a = HARD_DROP) \<longrightarrow>
      gameStateReducer e s a = returns s)"
proof -
  have A: "\<not> isGameOver s \<and> \<not> is_LOAD_STATE a \<and> gameStateReducer e s a = returns s' \<and> isGameOver s' \<longrightarrow>
      a = SPAWN_PIECE \<and>
      (\<exists>p. nextPiece s = Some p \<and>
           canPlacePiece (board s) p (piece_x p) (piece_y p) = Inr False)"
    using isGameOver_only_by_SPAWN_PIECE by blast
  have B: "engine_actions acts \<and> dispatchAll (createInitialGameState e0 name) acts = returns s \<and>
    \<not> isGameOver s \<and> \<not> is_LOAD_STATE a \<and> gameStateReducer e s a = returns s' \<and> isGameOver s' \<longrightarrow>
      a = SPAWN_PIECE \<and>
      (\<exists>p. nextPiece s = Some p \<and> piece_x p = 3 \<and> piece_y p = - 1 \<and>
           canPlacePiece (board s) p 3 (- 1) = Inr False)"
  proof
    assume h: "engine_actions acts \<and> dispatchAll (createInitialGameState e0 name) acts = returns s \<and>
      \<not> isGameOver s \<and> \<not> is_LOAD_STATE a \<and> gameStateReducer e s a = returns s' \<and> isGameOver s'"
    then have "next_at_spawn s"
      using dispatchAll_next_at_spawn[OF _ next_at_spawn_createInitialGameState] by blast
    moreover from h A obtain p where "a = SPAWN_PIECE" "nextPiece s = Some p"
      "canPlacePiece (board s) p (piece_x p) (piece_y p) = Inr False"
      by blast
    ultimately show "a = SPAWN_PIECE \<and>
      (\<exists>p. nextPiece s = Some p \<and> piece_x p = 3 \<and> piece_y p = - 1 \<and>
           canPlacePiece (board s) p 3 (- 1) = Inr False)"
      by (auto simp: next_at_spawn_def)
  qed
  have C: "\<not> isGameOver s \<and> nextPiece s = Some q \<and> gameStateReducer e s SPAWN_PIECE = returns s' \<longrightarrow>
      isGameOver s' = (canPlacePiece (board s) q (piece_x q) (piece_y q) = Inr False)"
    using reducer_SPAWN_PIECE_isGameOver by blast
  have D: "isGameOver s \<and> (a = MOVE_PIECE dx dy \<or> a = ROTATE_PIECE \<or> a = SOFT_DROP \<or> a = HARD_DROP) \<longrightarrow>
      gameStateReducer e s a = returns s"
    using reducer_frozen_when_over[of s a dx dy e] by blast
  show ?thesis by (rule conjI[OF A conjI[OF B conjI[OF C D]]])
qed

text \<open>
  The game played to its end: the pile reaches the top, the next \<^verbatim>\<open>SPAWN_PIECE\<close> ends
  the game, and a hard drop after that changes nothing.
\<close>

theorem isGameOver_spec_witness:
  "engine_actions stacking_actions \<and>
   dispatchAll (createInitialGameState fixed_env []) stacking_actions = returns stacked_state \<and>
   \<not> isGameOver stacked_state \<and>
   \<not> is_LOAD_STATE SPAWN_PIECE \<and>
   gameStateReducer fixed_env stacked_state SPAWN_PIECE =
     returns (state_after stacked_state [(fixed_env, SPAWN_PIECE)]) \<and>
   isGameOver (state_after stacked_state [(fixed_env, SPAWN_PIECE)]) \<and>
   (\<exists>p. nextPiece stacked_state = Some p \<and> piece_x p = 3 \<and> piece_y p = - 1 \<and>
        canPlacePiece (board stacked_state) p 3 (- 1) = Inr False) \<and>
   gameStateReducer fixed_env (state_after stacked_state [(fixed_env, SPAWN_PIECE)]) HARD_DROP =
     returns (state_after stacked_state [(fixed_env, SPAWN_PIECE)])"
proof -
  let ?s' = "state_after stacked_state [(fixed_env, SPAWN_PIECE)]"
  have h0: "engine_actions stacking_actions" by code_simp
  have h1: "dispatchAll (createInitialGameState fixed_env []) stacking_actions = returns stacked_state"
    by code_simp
  have h2: "\<not> isGameOver stacked_state" by code_simp
  have h3: "\<not> is_LOAD_STATE SPAWN_PIECE" by simp
  have h4: "gameStateReducer fixed_env stacked_state SPAWN_PIECE = returns ?s'" by code_simp
  have h5: "isGameOver ?s'" by code_simp
  note t1 = isGameOver_spec[where s = stacked_state and e = fixed_env and a = SPAWN_PIECE
      and s' = ?s' and acts = stacking_actions and ?e0.0 = fixed_env and name = "[]"]
  note t2 = isGameOver_spec[where s = ?s' and e = fixed_env and a = HARD_DROP]
  from t1 h0 h1 h2 h3 h4 h5 have c1: "\<exists>p. nextPiece stacked_state = Some p \<and> piece_x p = 3 \<and>
        piece_y p = - 1 \<and> canPlacePiece (board stacked_state) p 3 (- 1) = Inr False"
    by blast
  from t2 h5 have c2: "gameStateReducer fixed_env ?s' HARD_DROP = returns ?s'" by blast
  from h0 h1 h2 h3 h4 h5 c1 c2 show ?thesis by blast
qed

section \<open>Totality\<close>

text \<open>The states that commands lead to from a valid state are valid.\<close>

lemma dispatchAll_valid:
  assumes "valid_state s" and "engine_actions acts"
  shows "\<exists>s'. dispatchAll s acts = returns s' \<and> valid_state s'"
  using assms
proof (induction acts arbitrary: s)
  case Nil
  then show ?case by simp
next
  case (Cons ea acts)
  obtain e a where ea: "ea = (e, a)" by (cases ea)
  with Cons.prems(2) have nl: "\<forall>props. a \<noteq> LOAD_STATE props" and rest: "engine_actions acts"
    by (auto simp: engine_actions_def)
  from gameStateReducer_valid[OF Cons.prems(1), of e a] nl obtain s1 where
    s1: "gameStateReducer e s a = returns s1" "valid_state s1" by blast
  from Cons.IH[OF s1(2) rest] obtain s' where
    "dispatchAll s1 acts = returns s'" "valid_state s'" by auto
  with s1 ea show ?case by simp
qed

text \<open>
  C5. The reducer is total on the states of the data model (see \<open>valid_state\<close>): there
  every action returns a state (it does not throw, and the loop of the hard drop ends),
  and every command returns a state of the data model again. So every sequence of
  commands, from the initial state on, returns a state. \<^verbatim>\<open>MOVE_PIECE\<close>,
  \<^verbatim>\<open>ROTATE_PIECE\<close>, \<^verbatim>\<open>SOFT_DROP\<close>, \<^verbatim>\<open>HARD_DROP\<close> and \<^verbatim>\<open>HOLD_PIECE\<close> return the state
  unchanged while paused, after game over or with no current piece, and an action with no
  case in the reducer, of whatever tag, returns the state unchanged.
\<close>

theorem gameStateReducer_total:
  "(valid_state s \<longrightarrow>
      (\<exists>s'. gameStateReducer e s a = returns s' \<and>
            ((\<forall>props. a \<noteq> LOAD_STATE props) \<longrightarrow> valid_state s'))) \<and>
   (engine_actions acts \<longrightarrow>
      (\<exists>s'. dispatchAll (createInitialGameState e0 name) acts = returns s' \<and> valid_state s')) \<and>
   ((isPaused s \<or> isGameOver s \<or> currentPiece s = None) \<and>
    (a = MOVE_PIECE dx dy \<or> a = ROTATE_PIECE \<or> a = SOFT_DROP \<or> a = HARD_DROP \<or> a = HOLD_PIECE) \<longrightarrow>
      gameStateReducer e s a = returns s) \<and>
   gameStateReducer e s (OTHER tag) = returns s \<and>
   gameStateReducer e s DROP_PIECE = returns s \<and>
   gameStateReducer e s GAME_OVER = returns s \<and>
   gameStateReducer e s UPDATE_SCORE = returns s"
proof (intro conjI impI)
  assume "valid_state s"
  then show "\<exists>s'. gameStateReducer e s a = returns s' \<and>
            ((\<forall>props. a \<noteq> LOAD_STATE props) \<longrightarrow> valid_state s')"
    by (rule gameStateReducer_valid)
next
  assume "engine_actions acts"
  with valid_createInitialGameState
  show "\<exists>s'. dispatchAll (createInitialGameState e0 name) acts = returns s' \<and> valid_state s'"
    by (rule dispatchAll_valid)
next
  assume "(isPaused s \<or> isGameOver s \<or> currentPiece s = None) \<and>
    (a = MOVE_PIECE dx dy \<or> a = ROTATE_PIECE \<or> a = SOFT_DROP \<or> a = HARD_DROP \<or> a = HOLD_PIECE)"
  then show "gameStateReducer e s a = returns s"
    using reducer_frozen_when_over[of s a dx dy e] by blast
qed simp_all

theorem gameStateReducer_total_witness:
  "valid_state started_state \<and>
   (\<exists>s'. gameStateReducer fixed_env started_state HARD_DROP = returns s' \<and> valid_state s') \<and>
   engine_actions stacking_actions \<and>
   (\<exists>s'. dispatchAll (createInitialGameState fixed_env []) stacking_actions = returns s' \<and>
         valid_state s') \<and>
   currentPiece initial_state = None \<and>
   gameStateReducer fixed_env initial_state SOFT_DROP = returns initial_state"
proof -
  have h1: "valid_state started_state" by code_simp
  have h2: "currentPiece initial_state = None" by code_simp
  have h3: "engine_actions stacking_actions" by code_simp
  from gameStateReducer_total[of started_state fixed_env HARD_DROP] h1
  have c1: "\<exists>s'. gameStateReducer fixed_env started_state HARD_DROP = returns s' \<and> valid_state s'"
    by blast
  from gameStateReducer_total[where s = initial_state and a = SOFT_DROP and e = fixed_env] h2
  have c2: "gameStateReducer fixed_env initial_state SOFT_DROP = returns initial_state"
    by blast
  from gameStateReducer_total[where acts = stacking_actions and ?e0.0 = fixed_env and name = "[]"] h3
  have c3: "\<exists>s'. dispatchAll (createInitialGameState fixed_env []) stacking_actions = returns s' \<and>
         valid_state s'"
    by blast
  from h1 h2 h3 c1 c2 c3 show ?thesis by blast
qed

section \<open>Drawing from the bag\<close>

lemma first_spawn_after_start:
  assumes "gameStateReducer e s START_GAME = returns s1"
    and "gameStateReducer e' s1 SPAWN_PIECE = returns s2"
    and "\<not> isGameOver s2"
  shows "map_option piece_type (currentPiece s1) = Some (createTetrominoBag (rand e) ! 0) \<and>
         map_option piece_type (nextPiece s1) = Some (createTetrominoBag (rand e) ! 1) \<and>
         tetrominoBag s1 = drop 2 (createTetrominoBag (rand e)) \<and> bagIndex s1 = 2 \<and>
         map_option piece_type (nextPiece s2) = Some (createTetrominoBag (rand e) ! 4)"
proof -
  let ?bag = "createTetrominoBag (rand e)"
  have len: "length ?bag = 7" by (rule length_createTetrominoBag)
  then have "0 < length ?bag" "1 < length ?bag" by simp_all
  from createTetromino_default_valid[OF this(1)] createTetromino_default_valid[OF this(2)]
  obtain p q where
    p: "createTetromino_default (js_index ?bag 0) = Inr p" "piece_type p = ?bag ! 0" and
    q: "createTetromino_default (js_index ?bag 1) = Inr q" "piece_type q = ?bag ! 1"
    by auto
  from assms(1) p q have s1: "s1 = s\<lparr> gameState := GS_PLAYING,
                              currentPiece := Some p,
                              nextPiece := Some q,
                              tetrominoBag := drop 2 ?bag,
                              bagIndex := 2,
                              isGameOver := False,
                              isPaused := False,
                              gameStartTime := now e,
                              lastDropTime := now e \<rparr>"
    by (simp add: Let_def)
  have "2 < length (drop 2 ?bag)" using len by simp
  from createTetromino_default_valid[OF this] obtain r where
    r: "createTetromino_default (js_index (drop 2 ?bag) (int 2)) = Inr r"
       "piece_type r = drop 2 ?bag ! 2" by blast
  have d: "drop 2 ?bag ! 2 = ?bag ! 4" using len by simp
  from assms(2,3) r len have "nextPiece s2 = Some r"
    unfolding s1 by (auto simp: Let_def split: sum.splits if_splits)
  with r(2) d s1 p(2) q(2) show ?thesis by simp
qed

text \<open>
  C1. Spawning is claimed to consume each bag of seven in order and to make a fresh bag
  only when the current one is exhausted. \<^verbatim>\<open>START_GAME\<close> stores \<^verbatim>\<open>bag.slice(2)\<close>
  together with \<^verbatim>\<open>bagIndex: 2\<close>, so the next draws are entries 4, 5 and 6 of the first
  bag, and the fourth \<^verbatim>\<open>SPAWN_PIECE\<close> makes a fresh bag: entries 2 and 3 of the first bag
  (here S and Z) are never drawn. Below, after each action: the types of the current and
  the next piece, the stored bag and the index.
\<close>

theorem START_GAME_skips_two_bag_entries:
  "createTetrominoBag (rand fixed_env) =
     [Type_O, Type_T, Type_S, Type_Z, Type_J, Type_L, Type_I] \<and>
   trace bagView initial_state
     [(fixed_env, START_GAME), (fixed_env, SPAWN_PIECE), (fixed_env, SPAWN_PIECE),
      (fixed_env, SPAWN_PIECE), (fixed_env, SPAWN_PIECE)] =
     [(Some Type_O, Some Type_T, [Type_S, Type_Z, Type_J, Type_L, Type_I], 2),
      (Some Type_T, Some Type_J, [Type_S, Type_Z, Type_J, Type_L, Type_I], 3),
      (Some Type_J, Some Type_L, [Type_S, Type_Z, Type_J, Type_L, Type_I], 4),
      (Some Type_L, Some Type_I, [Type_S, Type_Z, Type_J, Type_L, Type_I], 5),
      (Some Type_I, Some Type_O, [Type_O, Type_T, Type_S, Type_Z, Type_J, Type_L, Type_I], 1)]"
  by code_simp

section \<open>Hold\<close>

lemma reducer_HOLD_PIECE_empty_slot:
  assumes "currentPiece s = Some cur" and "canHold s" and "\<not> isPaused s" and "\<not> isGameOver s"
    and "holdPiece s = None"
  shows "gameStateReducer e s HOLD_PIECE =
           returns (s\<lparr> currentPiece := nextPiece s,
                       holdPiece := Some (cur\<lparr>piece_x := 3, piece_y := - 1, rotation := 0\<rparr>),
                       canHold := False,
                       shouldSpawnNext := True \<rparr>)"
  using assms by (simp add: Let_def)

lemma reducer_HOLD_PIECE_twice:
  assumes "\<not> canHold s"
  shows "gameStateReducer e s HOLD_PIECE = returns s"
  using assms by (simp split: option.splits)

text \<open>
  C3. The held piece is claimed to be the former current piece reset to the spawn pose,
  its shape that of rotation 0. \<^verbatim>\<open>HOLD_PIECE\<close> resets \<open>x\<close>, \<open>y\<close> and \<open>rotation\<close> and
  leaves \<open>shape\<close> as it was: a T piece rotated once and then held has rotation 0 and the
  shape of rotation 1. Below, the held piece after each action.
\<close>

theorem HOLD_PIECE_keeps_rotated_shape:
  "trace holdPiece initial_state
     [(fixed_env, START_GAME), (fixed_env, SPAWN_PIECE), (fixed_env, ROTATE_PIECE),
      (fixed_env, HOLD_PIECE)] =
     [None, None, None,
      Some \<lparr> piece_type = Type_T, piece_x = 3, piece_y = - 1, rotation = 0,
             shape = Some (TETROMINO_SHAPES Type_T ! 1), color = ''tetromino-t'' \<rparr>] \<and>
   TETROMINO_SHAPES Type_T ! 1 \<noteq> TETROMINO_SHAPES Type_T ! 0"
  by code_simp

end
